theory Spec2Isabelle
  imports Main
begin

section \<open>Serial-range expansion and bulk intake of the stock application\<close>

text \<open>
  The development embeds the helper functions \<^verbatim>\<open>parseSerial\<close> and \<^verbatim>\<open>expandRange\<close> and
  the two memoised callers \<^verbatim>\<open>serialsProcessingResult\<close> and
  \<^verbatim>\<open>scannedSerialsProcessingResult\<close> of the main application component.

  Conventions of the embedding.
  \<^item> A JavaScript string is a list of code units; a code unit is a \<^typ>\<open>char\<close>, so the
    model covers the code units below 256. No code unit above that is a decimal digit or
    is looked at in any other way than by equality, except by \<^verbatim>\<open>trim\<close>.
  \<^item> A JavaScript Number is a double. The Numbers that arise here are \<^verbatim>\<open>NaN\<close>, the
    non-negative integers that are doubles, and \<^verbatim>\<open>Infinity\<close>; see \<open>number\<close> below.
  \<^item> An array cannot grow without bound: \<^verbatim>\<open>push\<close> throws a RangeError (or the engine
    aborts for lack of memory) once the array holds as many elements as the engine can
    give it. This number, \<open>maxLength\<close>, is a parameter of the functions that build an
    array in a loop; the language bounds it by \<open>2 ^ 32 - 1\<close> and engines stop earlier.
    The functions return an \<^typ>\<open>'a option\<close>: the value \<open>None\<close> is the call that throws
    and so does not return.
\<close>

subsection \<open>Decimal digits\<close>

text \<open>
  \<^verbatim>\<open>!isNaN(parseInt(serial[i], 10))\<close> on a string of one code unit: \<^verbatim>\<open>parseInt\<close> skips
  white space and a sign and then reads digits, so for one code unit the result is a
  number exactly when the unit is one of \<^verbatim>\<open>0\<close> .. \<^verbatim>\<open>9\<close>.
\<close>

definition isDigit :: "char \<Rightarrow> bool" where
  "isDigit c = (48 \<le> (of_char c :: nat) \<and> (of_char c :: nat) \<le> 57)"

definition digitVal :: "char \<Rightarrow> nat" where
  "digitVal c = of_char c - 48"

definition digitChar :: "nat \<Rightarrow> char" where
  "digitChar d = char_of (48 + d)"

text \<open>The mathematical value of a run of digits, most significant digit first.\<close>

definition digitsValue :: "string \<Rightarrow> nat" where
  "digitsValue ds = foldl (\<lambda>a c. 10 * a + digitVal c) 0 ds"

text \<open>The decimal numeral of a natural number, without leading zeros.\<close>

fun decimal :: "nat \<Rightarrow> string" where
  "decimal n = (if n < 10 then [digitChar n] else decimal (n div 10) @ [digitChar (n mod 10)])"

declare decimal.simps [simp del]

subsection \<open>JavaScript Numbers\<close>

datatype number = NaN | Finite nat | Infinity

text \<open>The number of binary digits of a natural number.\<close>

fun bitLength :: "nat \<Rightarrow> nat" where
  "bitLength n = (if n = 0 then 0 else Suc (bitLength (n div 2)))"

declare bitLength.simps [simp del]

text \<open>
  The Number for a mathematical non-negative integer: the nearest double, ties to the
  even significand, \<^verbatim>\<open>Infinity\<close> from \<open>2 ^ 1024\<close> on. A double has 53 significant bits, so
  every integer below \<open>2 ^ 53\<close> is a double.
\<close>

definition roundNumber :: "nat \<Rightarrow> number" where
  "roundNumber n =
     (if n < 2 ^ 53 then Finite n
      else let sh = bitLength n - 53;
               q = n div 2 ^ sh;
               r = n mod 2 ^ sh;
               half = 2 ^ (sh - 1);
               q' = (if half < r \<or> (r = half \<and> odd q) then q + 1 else q);
               v = q' * 2 ^ sh
           in if 2 ^ 1024 \<le> v then Infinity else Finite v)"

text \<open>
  \<^verbatim>\<open>parseInt(s, 10)\<close> on a string that starts with its digits: the leading run of digits
  is read and rounded; without a leading digit the result is \<^verbatim>\<open>NaN\<close>. (The white space
  and the sign that \<^verbatim>\<open>parseInt\<close> also accepts in front are left out: \<^verbatim>\<open>expandRange\<close>
  passes a non-empty run of digits, see \<open>parseSerial_Some\<close>.) The standard lets an
  implementation replace the digits after the 20th significant one by zeros before it
  rounds; the model rounds the exact value. The two can differ only for values of
  \<open>10 ^ 20\<close> and more.
\<close>

definition parseInt10 :: "string \<Rightarrow> number" where
  "parseInt10 s =
     (let ds = takeWhile isDigit s in if ds = [] then NaN else roundNumber (digitsValue ds))"

text \<open>\<^verbatim>\<open>a > b\<close> and \<^verbatim>\<open>a <= b\<close> on Numbers; every comparison with \<^verbatim>\<open>NaN\<close> is false.\<close>

fun numGt :: "number \<Rightarrow> number \<Rightarrow> bool" where
  "numGt NaN _ = False"
| "numGt _ NaN = False"
| "numGt (Finite a) (Finite b) = (b < a)"
| "numGt (Finite a) Infinity = False"
| "numGt Infinity (Finite b) = True"
| "numGt Infinity Infinity = False"

fun numLe :: "number \<Rightarrow> number \<Rightarrow> bool" where
  "numLe NaN _ = False"
| "numLe _ NaN = False"
| "numLe (Finite a) (Finite b) = (a \<le> b)"
| "numLe (Finite a) Infinity = True"
| "numLe Infinity (Finite b) = False"
| "numLe Infinity Infinity = True"

text \<open>\<^verbatim>\<open>i++\<close>: the Number for \<open>i + 1\<close>.\<close>

fun increment :: "number \<Rightarrow> number" where
  "increment NaN = NaN"
| "increment (Finite n) = roundNumber (n + 1)"
| "increment Infinity = Infinity"

text \<open>
  \<^verbatim>\<open>String(i)\<close>. For an integer double below \<open>2 ^ 54\<close> the shortest numeral that reads
  back as the double is its decimal numeral. (Above, \<^verbatim>\<open>String\<close> drops digits and from
  \<open>10 ^ 21\<close> on switches to exponent notation; the loop of \<^verbatim>\<open>expandRange\<close> does not
  return from such a value, see \<open>expandLoop_beyond\<close>, so no result shows the
  difference.)
\<close>

fun numberToString :: "number \<Rightarrow> string" where
  "numberToString NaN = ''NaN''"
| "numberToString (Finite n) = decimal n"
| "numberToString Infinity = ''Infinity''"

subsection \<open>String operations\<close>

text \<open>\<^verbatim>\<open>s.padStart(targetLength, '0')\<close>: a string that is long enough is returned as it is.\<close>

definition padStart :: "nat \<Rightarrow> string \<Rightarrow> string" where
  "padStart targetLength s = replicate (targetLength - length s) (CHR ''0'') @ s"

text \<open>
  \<^verbatim>\<open>s.substring(a, b)\<close>: both indices are clamped to the length and swapped when the
  first is the larger.
\<close>

definition substring :: "string \<Rightarrow> nat \<Rightarrow> nat \<Rightarrow> string" where
  "substring s a b =
     (let a' = min a (length s); b' = min b (length s);
          lo = min a' b'; hi = max a' b'
      in take (hi - lo) (drop lo s))"

text \<open>\<^verbatim>\<open>s.substring(a)\<close>.\<close>

definition substringFrom :: "string \<Rightarrow> nat \<Rightarrow> string" where
  "substringFrom s a = drop a s"

text \<open>
  \<^verbatim>\<open>s.trim()\<close> removes white space and line terminators at both ends; below 256 these are
  the code units 9 to 13, 32 and 160.
\<close>

definition isWhiteSpace :: "char \<Rightarrow> bool" where
  "isWhiteSpace c = ((of_char c :: nat) \<in> {9, 10, 11, 12, 13, 32, 160})"

definition trim :: "string \<Rightarrow> string" where
  "trim s = rev (dropWhile isWhiteSpace (rev (dropWhile isWhiteSpace s)))"

text \<open>\<^verbatim>\<open>text.split('\n')\<close>: the pieces between the line feeds; never an empty list.\<close>

fun splitLines :: "string \<Rightarrow> string list" where
  "splitLines [] = [[]]"
| "splitLines (c # cs) =
     (if c = CHR 0x0A then [] # splitLines cs
      else (case splitLines cs of l # ls \<Rightarrow> (c # l) # ls | [] \<Rightarrow> [[c]]))"

subsection \<open>parseSerial\<close>

text \<open>
  \<^verbatim>\<open>for (let i = serial.length - 1; i >= 0; i--) if (digit(serial[i])) { lastDigitIndex = i; break; }\<close>
  The argument \<open>k\<close> is \<open>i + 1\<close>; \<open>None\<close> is the initial value \<^verbatim>\<open>-1\<close> left unchanged.
\<close>

primrec findLastDigit :: "string \<Rightarrow> nat \<Rightarrow> nat option" where
  "findLastDigit serial 0 = None"
| "findLastDigit serial (Suc i) =
     (if isDigit (serial ! i) then Some i else findLastDigit serial i)"

text \<open>
  \<^verbatim>\<open>while (firstDigitIndex > 0 && digit(serial[firstDigitIndex - 1])) firstDigitIndex--;\<close>
\<close>

primrec findFirstDigit :: "string \<Rightarrow> nat \<Rightarrow> nat" where
  "findFirstDigit serial 0 = 0"
| "findFirstDigit serial (Suc j) =
     (if isDigit (serial ! j) then findFirstDigit serial j else Suc j)"

record parts =
  prefix :: string
  numStr :: string
  suffix :: string

definition parseSerial :: "string \<Rightarrow> parts option" where
  "parseSerial serial =
     (case findLastDigit serial (length serial) of
        None \<Rightarrow> None
      | Some lastDigitIndex \<Rightarrow>
          let firstDigitIndex = findFirstDigit serial lastDigitIndex
          in Some \<lparr> prefix = substring serial 0 firstDigitIndex,
                    numStr = substring serial firstDigitIndex (lastDigitIndex + 1),
                    suffix = substringFrom serial (lastDigitIndex + 1) \<rparr>)"

subsection \<open>expandRange\<close>

definition errInvalidFormat :: string where
  "errInvalidFormat = ''Invalid format. Serials must contain a number part for range expansion.''"

definition errTextParts :: string where
  "errTextParts = ''The text parts (prefix/suffix) of the serial numbers do not match.''"

definition errStartGreater :: string where
  "errStartGreater = ''The start number cannot be greater than the end number.''"

text \<open>
  \<^verbatim>\<open>for (let i = startNum; i <= endNum; i++) { results.push(prefix + pad(String(i)) + suffix); }\<close>
  The loop returns \<open>results\<close> when the test fails. While the test holds it pushes, and
  the push on an array of \<open>maxLength\<close> elements throws. Every round makes the array
  longer, so the loop ends one way or the other.
\<close>

function
  expandLoop :: "nat \<Rightarrow> number \<Rightarrow> number \<Rightarrow> nat \<Rightarrow> string \<Rightarrow> string \<Rightarrow> string list \<Rightarrow>
    string list option"
where
  "expandLoop maxLength i endNum padLength startPrefix startSuffix results =
     (if numLe i endNum
      then if length results < maxLength
           then expandLoop maxLength (increment i) endNum padLength startPrefix startSuffix
                  (results @ [startPrefix @ padStart padLength (numberToString i) @ startSuffix])
           else None
      else Some results)"
  by pat_completeness auto
termination
  by (relation "measure (\<lambda>(maxLength, i, endNum, padLength, startPrefix, startSuffix, results).
        maxLength - length results)") auto

declare expandLoop.simps [simp del]

text \<open>
  The result is \<open>Inl error\<close> for \<^verbatim>\<open>{ error }\<close> and \<open>Inr result\<close> for \<^verbatim>\<open>{ result }\<close>.
\<close>

definition expandRange :: "nat \<Rightarrow> string \<Rightarrow> string \<Rightarrow> (string + string list) option" where
  "expandRange maxLength start end =
     (case (parseSerial start, parseSerial end) of
        (Some startParts, Some endParts) \<Rightarrow>
          if prefix startParts \<noteq> prefix endParts \<or> suffix startParts \<noteq> suffix endParts
          then Some (Inl errTextParts)
          else
            let startNum = parseInt10 (numStr startParts);
                endNum = parseInt10 (numStr endParts)
            in if numGt startNum endNum then Some (Inl errStartGreater)
               else
                 let padLength = max (length (numStr startParts)) (length (numStr endParts))
                 in map_option Inr
                      (expandLoop maxLength startNum endNum padLength
                         (prefix startParts) (suffix startParts) [])
      | _ \<Rightarrow> Some (Inl errInvalidFormat))"

subsection \<open>The callers: range mode, list mode and scan intake\<close>

text \<open>
  The object \<^verbatim>\<open>{ serials, error }\<close> that both memoised computations return; the error
  \<open>None\<close> is \<^verbatim>\<open>null\<close>. The computations themselves return \<open>None\<close> when
  \<^verbatim>\<open>expandRange\<close> throws.
\<close>

record processing =
  serials :: "string list"
  error :: "string option"

text \<open>
  The two template literals that end in \<^verbatim>\<open>${expanded.length}.\<close> and in
  \<^verbatim>\<open>${lines.length}.\<close>: a length is an integer below \<open>2 ^ 32\<close>, which the template
  renders as its decimal numeral.
\<close>

definition errRangeTooLarge :: "nat \<Rightarrow> string" where
  "errRangeTooLarge n =
     ''Range is too large. A maximum of 1000 items can be added at once, but this range contains '' @
     decimal n @ ''.''"

definition errListTooLong :: "nat \<Rightarrow> string" where
  "errListTooLong n =
     ''List is too long. A maximum of 1000 items can be added at once, but you have provided '' @
     decimal n @ ''.''"

definition errDuplicates :: string where
  "errDuplicates = ''The list contains duplicate serial numbers. Please ensure each is unique.''"

text \<open>The state \<^verbatim>\<open>addMode\<close> is \<^verbatim>\<open>'range'\<close> or \<^verbatim>\<open>'list'\<close>.\<close>

datatype addMode = ModeRange | ModeList

text \<open>The fields of the state \<^verbatim>\<open>newItem\<close> that the computation reads.\<close>

record newItem =
  firstSerial :: string
  lastSerial :: string
  barcodes :: string

definition serialsProcessingResult ::
  "nat \<Rightarrow> addMode \<Rightarrow> newItem \<Rightarrow> processing option" where
  "serialsProcessingResult maxLength mode item =
     (case mode of
        ModeRange \<Rightarrow>
          let start = trim (firstSerial item);
              end = trim (lastSerial item)
          in if start = [] \<or> end = [] then Some \<lparr> serials = [], error = None \<rparr>
             else (case expandRange maxLength start end of
                     None \<Rightarrow> None
                   | Some (Inl e) \<Rightarrow> Some \<lparr> serials = [], error = Some e \<rparr>
                   | Some (Inr expanded) \<Rightarrow>
                       if 1000 < length expanded
                       then Some \<lparr> serials = [],
                                   error = Some (errRangeTooLarge (length expanded)) \<rparr>
                       else Some \<lparr> serials = expanded, error = None \<rparr>)
      | ModeList \<Rightarrow>
          let text = barcodes item
          in if trim text = [] then Some \<lparr> serials = [], error = None \<rparr>
             else
               let lines = filter (\<lambda>line. line \<noteq> []) (map trim (splitLines text))
               in if 1000 < length lines
                  then Some \<lparr> serials = [], error = Some (errListTooLong (length lines)) \<rparr>
                  else
                    let uniqueLines = set lines
                    in if card uniqueLines \<noteq> length lines
                       then Some \<lparr> serials = [], error = Some errDuplicates \<rparr>
                       else Some \<lparr> serials = lines, error = None \<rparr>)"

text \<open>
  The scan intake. An item type has a name and a category; \<^verbatim>\<open>StockCategory.METERS\<close> is the
  string \<^verbatim>\<open>'Meters'\<close>. The serial fields are read with \<^verbatim>\<open>?.\<close>, so they may be absent.
\<close>

record itemType =
  typeName :: string
  category :: string

record scannedItemDetails =
  scannedName :: string
  scannedFirstSerial :: "string option"
  scannedLastSerial :: "string option"

definition METERS :: string where
  "METERS = ''Meters''"

definition scannedSerialsProcessingResult ::
  "nat \<Rightarrow> itemType list \<Rightarrow> scannedItemDetails \<Rightarrow> processing option" where
  "scannedSerialsProcessingResult maxLength itemTypes details =
     (let selectedItemType = find (\<lambda>it. typeName it = scannedName details) itemTypes
      in if map_option category selectedItemType \<noteq> Some METERS
         then Some \<lparr> serials = [], error = None \<rparr>
         else
           let start = map_option trim (scannedFirstSerial details);
               end = map_option trim (scannedLastSerial details)
           in (case (start, end) of
                 (Some start', Some end') \<Rightarrow>
                   if start' = [] \<or> end' = [] then Some \<lparr> serials = [], error = None \<rparr>
                   else (case expandRange maxLength start' end' of
                           None \<Rightarrow> None
                         | Some (Inl e) \<Rightarrow> Some \<lparr> serials = [], error = Some e \<rparr>
                         | Some (Inr expanded) \<Rightarrow>
                             if 1000 < length expanded
                             then Some \<lparr> serials = [],
                                         error = Some (errRangeTooLarge (length expanded)) \<rparr>
                             else Some \<lparr> serials = expanded, error = None \<rparr>)
               | _ \<Rightarrow> Some \<lparr> serials = [], error = None \<rparr>))"

section \<open>Properties of the parser\<close>

lemma findLastDigit_None: "findLastDigit s k = None \<longleftrightarrow> (\<forall>i<k. \<not> isDigit (s ! i))"
  by (induction k) (auto simp: less_Suc_eq)

lemma findLastDigit_Some:
  "findLastDigit s k = Some l \<Longrightarrow>
     l < k \<and> isDigit (s ! l) \<and> (\<forall>i. l < i \<and> i < k \<longrightarrow> \<not> isDigit (s ! i))"
  by (induction k) (auto simp: less_Suc_eq split: if_splits)

lemma findFirstDigit_le: "findFirstDigit s j \<le> j"
  by (induction j) auto

lemma findFirstDigit_run: "findFirstDigit s j \<le> i \<Longrightarrow> i < j \<Longrightarrow> isDigit (s ! i)"
  by (induction j) (auto simp: less_Suc_eq split: if_splits)

lemma findFirstDigit_maximal:
  "0 < findFirstDigit s j \<Longrightarrow> \<not> isDigit (s ! (findFirstDigit s j - 1))"
  by (induction j) auto

lemma set_conv_digit: "(\<exists>c\<in>set s. isDigit c) \<longleftrightarrow> (\<exists>i<length s. isDigit (s ! i))"
  by (metis in_set_conv_nth)

lemma parseSerial_None: "parseSerial s = None \<longleftrightarrow> (\<forall>c\<in>set s. \<not> isDigit c)"
  using findLastDigit_None [of s "length s"] set_conv_digit [of s]
  by (auto simp: parseSerial_def Let_def split: option.splits)

lemma parseSerial_Some:
  assumes "parseSerial s = Some p"
  shows "prefix p @ numStr p @ suffix p = s"
    and "numStr p \<noteq> []"
    and "\<forall>c\<in>set (numStr p). isDigit c"
    and "prefix p = [] \<or> \<not> isDigit (last (prefix p))"
    and "\<forall>c\<in>set (suffix p). \<not> isDigit c"
proof -
  from assms obtain l where l: "findLastDigit s (length s) = Some l"
    by (auto simp: parseSerial_def split: option.splits)
  define f where "f = findFirstDigit s l"
  from findLastDigit_Some [OF l] have ll: "l < length s" and dl: "isDigit (s ! l)"
    and after: "\<And>i. l < i \<Longrightarrow> i < length s \<Longrightarrow> \<not> isDigit (s ! i)" by auto
  have fl: "f \<le> l" unfolding f_def by (rule findFirstDigit_le)
  from assms l have p: "p = \<lparr> prefix = take f s, numStr = take (Suc l - f) (drop f s),
      suffix = drop (Suc l) s \<rparr>"
    using fl ll by (simp add: parseSerial_def substring_def substringFrom_def f_def Let_def min_def max_def)
  have "take f s @ take (Suc l - f) (drop f s) = take (f + (Suc l - f)) s"
    by (simp add: take_add)
  also have "\<dots> = take (Suc l) s" using fl by simp
  finally have "(take f s @ take (Suc l - f) (drop f s)) @ drop (Suc l) s = s" by simp
  then show "prefix p @ numStr p @ suffix p = s" by (simp add: p)
  show "numStr p \<noteq> []" using fl ll by (simp add: p)
  show "\<forall>c\<in>set (numStr p). isDigit c"
  proof
    fix c assume "c \<in> set (numStr p)"
    then obtain i where i: "i < length (numStr p)" and c: "c = numStr p ! i"
      by (auto simp: in_set_conv_nth)
    from i have il: "i < Suc l - f" by (simp add: p)
    with c fl ll have "c = s ! (f + i)" by (simp add: p)
    moreover have "isDigit (s ! (f + i))"
    proof (cases "f + i = l")
      case True then show ?thesis using dl by simp
    next
      case False
      with il have "f + i < l" by simp
      then show ?thesis using findFirstDigit_run [of s l "f + i"] by (simp add: f_def)
    qed
    ultimately show "isDigit c" by simp
  qed
  show "prefix p = [] \<or> \<not> isDigit (last (prefix p))"
  proof (cases "f = 0")
    case True then show ?thesis by (simp add: p)
  next
    case False
    then have "take f s \<noteq> []" using fl ll by auto
    then have "last (take f s) = take f s ! (length (take f s) - 1)" by (rule last_conv_nth)
    then have "last (take f s) = s ! (f - 1)" using False fl ll by (simp add: min_def)
    moreover have "\<not> isDigit (s ! (f - 1))"
      using False findFirstDigit_maximal [of s l] by (simp add: f_def)
    ultimately show ?thesis by (simp add: p)
  qed
  show "\<forall>c\<in>set (suffix p). \<not> isDigit c"
  proof
    fix c assume "c \<in> set (suffix p)"
    then obtain i where i: "i < length s - Suc l" and c: "c = drop (Suc l) s ! i"
      by (auto simp: in_set_conv_nth p)
    then have "c = s ! (Suc l + i)" using ll by simp
    moreover have "\<not> isDigit (s ! (Suc l + i))" using after [of "Suc l + i"] i by simp
    ultimately show "\<not> isDigit c" by simp
  qed
qed

section \<open>Numerals, padding and the loop\<close>

lemma digitVal_digitChar: "d < 10 \<Longrightarrow> digitVal (digitChar d) = d"
  by (simp add: digitVal_def digitChar_def)


lemma digitVal_zero: "digitVal (CHR ''0'') = 0"
  by (simp add: digitVal_def)




lemma decimal_nonempty: "decimal n \<noteq> []"
  by (subst decimal.simps) simp


lemma length_padStart: "length (padStart w s) = max w (length s)"
  by (simp add: padStart_def)

lemma padStart_unchanged: "w \<le> length s \<Longrightarrow> padStart w s = s"
  by (simp add: padStart_def)



lemma roundNumber_small: "n < 2 ^ 53 \<Longrightarrow> roundNumber n = Finite n"
  by (simp add: roundNumber_def)

lemma roundNumber_2_53: "roundNumber 9007199254740992 = Finite 9007199254740992"
  by (simp add: roundNumber_def bitLength.simps Let_def)

lemma expandLoop_small:
  "e < 2 ^ 53 \<Longrightarrow> s \<le> Suc e \<Longrightarrow> length res \<le> L \<Longrightarrow>
   expandLoop L (Finite s) (Finite e) w p x res =
     (if length res + (Suc e - s) \<le> L
      then Some (res @ map (\<lambda>n. p @ padStart w (decimal n) @ x) [s..<Suc e])
      else None)"
proof (induction "Suc e - s" arbitrary: s res)
  case 0
  then have "s = Suc e" by simp
  then show ?case using "0.prems" by (subst expandLoop.simps) simp
next
  case (Suc k)
  then have se: "s \<le> e" and k: "k = Suc e - Suc s" by simp_all
  have inc: "increment (Finite s) = Finite (Suc s)"
  proof (cases "Suc s < 2 ^ 53")
    case True then show ?thesis by (simp add: roundNumber_small)
  next
    case False
    with se Suc.prems(1) have "Suc s = 9007199254740992" by simp
    then show ?thesis by (simp add: roundNumber_2_53)
  qed
  show ?case
  proof (cases "length res < L")
    case False
    with se have "expandLoop L (Finite s) (Finite e) w p x res = None"
      by (subst expandLoop.simps) simp
    with False se Suc.prems(3) show ?thesis by simp
  next
    case True
    then have "expandLoop L (Finite s) (Finite e) w p x res =
          expandLoop L (Finite (Suc s)) (Finite e) w p x (res @ [p @ padStart w (decimal s) @ x])"
      using se inc by (subst expandLoop.simps) simp
    also have "\<dots> =
         (if length (res @ [p @ padStart w (decimal s) @ x]) + (Suc e - Suc s) \<le> L
          then Some ((res @ [p @ padStart w (decimal s) @ x]) @
                 map (\<lambda>n. p @ padStart w (decimal n) @ x) [Suc s..<Suc e])
          else None)"
      by (rule Suc.hyps(1) [OF k Suc.prems(1)]) (use se True in simp_all)
    also have "\<dots> =
         (if length res + (Suc e - s) \<le> L
          then Some (res @ map (\<lambda>n. p @ padStart w (decimal n) @ x) [s..<Suc e])
          else None)"
    proof -
      have "length (res @ [p @ padStart w (decimal s) @ x]) + (Suc e - Suc s) =
            length res + (Suc e - s)"
        using se by simp
      moreover have "[s..<Suc e] = s # [Suc s..<Suc e]"
        using se by (simp add: upt_conv_Cons [of s "Suc e"] del: upt_Suc)
      ultimately show ?thesis using se by (auto simp del: upt_Suc)
    qed
    finally show ?thesis .
  qed
qed

lemma expandLoop_safe:
  "e < 2 ^ 53 \<Longrightarrow> s \<le> Suc e \<Longrightarrow> length res + (Suc e - s) \<le> L \<Longrightarrow>
   expandLoop L (Finite s) (Finite e) w p x res =
     Some (res @ map (\<lambda>n. p @ padStart w (decimal n) @ x) [s..<Suc e])"
  by (simp add: expandLoop_small)

lemma expandLoop_stuck:
  assumes "increment i = i" and "numLe i e"
  shows "expandLoop L i e w p x res = None"
proof (induction "L - length res" arbitrary: res)
  case 0
  then have "\<not> length res < L" by simp
  with assms(2) show ?case by (subst expandLoop.simps) simp
next
  case (Suc k)
  then have "length res < L" and "k = L - length (res @ [p @ padStart w (numberToString i) @ x])"
    by simp_all
  with Suc.hyps(1) assms show ?case by (subst expandLoop.simps) simp
qed

section \<open>Rounding to a double\<close>

lemma bitLength_eq: "2 ^ k \<le> n \<Longrightarrow> n < 2 ^ Suc k \<Longrightarrow> bitLength n = Suc k"
proof (induction k arbitrary: n)
  case 0
  then have "n = 1" by simp
  then show ?case by (simp add: bitLength.simps)
next
  case (Suc k)
  then have "2 ^ k \<le> n div 2" and "n div 2 < 2 ^ Suc k" by auto
  then have "bitLength (n div 2) = Suc k" by (rule Suc.IH)
  moreover from Suc.prems have "n \<noteq> 0" by auto
  ultimately show ?case by (subst bitLength.simps) simp
qed

lemma bitLength_bounds: "0 < n \<Longrightarrow> 2 ^ (bitLength n - 1) \<le> n \<and> n < 2 ^ bitLength n"
proof (induction n rule: bitLength.induct)
  case (1 n)
  show ?case
  proof (cases "n div 2 = 0")
    case True
    with 1 have "n = 1" by auto
    then show ?thesis by (simp add: bitLength.simps)
  next
    case False
    with 1 have IH: "2 ^ (bitLength (n div 2) - 1) \<le> n div 2" "n div 2 < 2 ^ bitLength (n div 2)"
      by auto
    from False have pos: "0 < bitLength (n div 2)" by (subst bitLength.simps) simp
    have bl: "bitLength n = Suc (bitLength (n div 2))" using 1(2) by (subst bitLength.simps) simp
    from pos have "(2::nat) ^ bitLength (n div 2) = 2 * 2 ^ (bitLength (n div 2) - 1)"
      by (cases "bitLength (n div 2)") simp_all
    moreover define X :: nat where "X = 2 ^ (bitLength (n div 2) - 1)"
    ultimately have "X \<le> n div 2" and "n div 2 < 2 * X" using IH by simp_all
    then have "2 * X \<le> n \<and> n < 2 * (2 * X)" by arith
    then show ?thesis unfolding bl X_def using pos
      by (cases "bitLength (n div 2)") simp_all
  qed
qed


lemma roundNumber_unfold:
  assumes "2 ^ 53 \<le> n" and "sh = bitLength n - 53"
  shows "roundNumber n =
     (let q' = (if 2 ^ (sh - 1) < n mod 2 ^ sh \<or> (n mod 2 ^ sh = 2 ^ (sh - 1) \<and> odd (n div 2 ^ sh))
                then n div 2 ^ sh + 1 else n div 2 ^ sh)
      in if 2 ^ 1024 \<le> q' * 2 ^ sh then Infinity else Finite (q' * 2 ^ sh))"
  using assms by (simp add: roundNumber_def Let_def)

lemma roundNumber_not_NaN: "roundNumber n \<noteq> NaN"
  by (simp add: roundNumber_def Let_def)

lemma roundNumber_decomp:
  assumes "2 ^ 52 \<le> q" and "q < 2 ^ 53" and "1 \<le> sh" and "r < 2 ^ sh"
  shows "roundNumber (q * 2 ^ sh + r) =
     (let q' = (if 2 ^ (sh - 1) < r \<or> (r = 2 ^ (sh - 1) \<and> odd q) then q + 1 else q)
      in if 2 ^ 1024 \<le> q' * 2 ^ sh then Infinity else Finite (q' * 2 ^ sh))"
proof -
  define P :: nat where "P = 2 ^ sh"
  define n :: nat where "n = q * P + r"
  have P2: "2 \<le> P" using assms(3) self_le_ge2_pow [of 2 sh] unfolding P_def
    by (cases sh) simp_all
  have r: "r < P" using assms(4) by (simp add: P_def)
  have "2 ^ 52 * P \<le> q * P" using assms(1) by simp
  then have "2 ^ 52 * P \<le> q * P + r" by (rule trans_le_add1)
  then have lo: "2 ^ (52 + sh) \<le> n" by (simp add: n_def P_def power_add)
  have "q * P + r < (q + 1) * P" using r by simp
  also have "\<dots> \<le> 2 ^ 53 * P" using assms(2) by (intro mult_le_mono1) simp
  finally have hi: "n < 2 ^ Suc (52 + sh)" by (simp add: n_def P_def power_add)
  from lo hi have bl: "bitLength n = Suc (52 + sh)" by (rule bitLength_eq)
  have "(2::nat) ^ 53 \<le> 2 ^ (52 + sh)" using assms(3) by (intro power_increasing) simp_all
  with lo have n53: "2 ^ 53 \<le> n" by simp
  have d: "(q * 2 ^ sh + r) div 2 ^ sh = q" and m: "(q * 2 ^ sh + r) mod 2 ^ sh = r"
    using assms(4) by simp_all
  have "sh = bitLength n - 53" by (simp add: bl)
  from roundNumber_unfold [OF n53 this] show ?thesis
    unfolding n_def P_def d m .
qed

lemma large_decomp:
  assumes "2 ^ 53 \<le> (n::nat)"
  shows "\<exists>q sh r. 2 ^ 52 \<le> q \<and> q < 2 ^ 53 \<and> 1 \<le> sh \<and> r < 2 ^ sh \<and> n = q * 2 ^ sh + r"
proof -
  define b where "b = bitLength n"
  define sh where "sh = b - 53"
  define P :: nat where "P = 2 ^ sh"
  define q where "q = n div P"
  from assms have "0 < n" by simp
  from bitLength_bounds [OF this] have lo: "2 ^ (b - 1) \<le> n" and hi: "n < 2 ^ b"
    by (simp_all add: b_def)
  from assms hi have "(2::nat) ^ 53 < 2 ^ b" by simp
  then have b53: "53 < b" by (simp only: power_strict_increasing_iff) 
  then have sh1: "1 \<le> sh" and b: "b = 53 + sh" and b1: "b - Suc 0 = 52 + sh"
    by (simp_all add: sh_def)
  have Ppos: "0 < P" by (simp add: P_def)
  from hi have "n < 2 ^ 53 * P" by (simp add: b P_def power_add)
  then have q_hi: "q < 2 ^ 53" unfolding q_def by (rule less_mult_imp_div_less)
  from lo have "2 ^ 52 * P \<le> n" by (simp add: b1 P_def power_add)
  then have q_lo: "2 ^ 52 \<le> q" unfolding q_def using Ppos
    by (simp add: less_eq_div_iff_mult_less_eq)
  have "n mod P < P" using Ppos by simp
  moreover have "n = q * P + n mod P" by (simp add: q_def)
  ultimately show ?thesis using q_lo q_hi sh1 unfolding P_def by blast
qed

lemma roundNumber_not_Finite_small:
  assumes "2 ^ 53 \<le> n" and "roundNumber n = Finite v"
  shows "2 ^ 53 \<le> v"
proof -
  from large_decomp [OF assms(1)] obtain q sh r where
    q: "2 ^ 52 \<le> q" "q < 2 ^ 53" and sh: "1 \<le> sh" and r: "r < 2 ^ sh"
    and n: "n = q * 2 ^ sh + r" by blast
  define q' where "q' = (if 2 ^ (sh - 1) < r \<or> (r = 2 ^ (sh - 1) \<and> odd q) then q + 1 else q)"
  have "roundNumber n = (if 2 ^ 1024 \<le> q' * 2 ^ sh then Infinity else Finite (q' * 2 ^ sh))"
    unfolding n q'_def using roundNumber_decomp [OF q sh r] by (simp only: Let_def)
  with assms(2) have v: "v = q' * 2 ^ sh" by (simp split: if_splits)
  have "2 ^ 52 \<le> q'" using q by (simp add: q'_def)
  moreover have "(2::nat) ^ 1 \<le> 2 ^ sh" using sh by (intro power_increasing) simp_all
  ultimately have "2 ^ 52 * 2 ^ 1 \<le> q' * 2 ^ sh" by (rule mult_le_mono)
  then show ?thesis by (simp add: v)
qed

lemma roundNumber_small_inv:
  assumes "roundNumber n = Finite v" and "v < 2 ^ 53"
  shows "n = v"
proof (cases "n < 2 ^ 53")
  case True
  with assms show ?thesis by (simp add: roundNumber_def)
next
  case False
  then have "2 ^ 53 \<le> n" by simp
  from roundNumber_not_Finite_small [OF this assms(1)] assms(2) show ?thesis by simp
qed

lemma roundNumber_large_form:
  assumes "roundNumber n = Finite v" and "2 ^ 53 \<le> v"
  shows "\<exists>q sh. 1 \<le> sh \<and> 2 ^ 52 \<le> q \<and> q < 2 ^ 53 \<and> v = q * 2 ^ sh \<and> v < 2 ^ 1024"
proof -
  have n53: "2 ^ 53 \<le> n"
  proof (rule ccontr)
    assume "\<not> 2 ^ 53 \<le> n"
    then have "roundNumber n = Finite n" by (simp add: roundNumber_def)
    with assms \<open>\<not> 2 ^ 53 \<le> n\<close> show False by simp
  qed
  from large_decomp [OF this] obtain q sh r where
    q: "2 ^ 52 \<le> q" "q < 2 ^ 53" and sh: "1 \<le> sh" and r: "r < 2 ^ sh"
    and n: "n = q * 2 ^ sh + r" by blast
  define q' where "q' = (if 2 ^ (sh - 1) < r \<or> (r = 2 ^ (sh - 1) \<and> odd q) then q + 1 else q)"
  have "roundNumber n = (if 2 ^ 1024 \<le> q' * 2 ^ sh then Infinity else Finite (q' * 2 ^ sh))"
    unfolding n q'_def using roundNumber_decomp [OF q sh r] by (simp only: Let_def)
  with assms(1) have v: "v = q' * 2 ^ sh" and fin: "v < 2 ^ 1024" by (simp_all split: if_splits)
  have "q' = q \<or> q' = q + 1" by (simp add: q'_def)
  then show ?thesis
  proof
    assume "q' = q"
    with v fin sh q show ?thesis by blast
  next
    assume q1: "q' = q + 1"
    show ?thesis
    proof (cases "q + 1 < 2 ^ 53")
      case True
      with q1 v fin sh q have
        "1 \<le> sh \<and> 2 ^ 52 \<le> q + 1 \<and> q + 1 < 2 ^ 53 \<and> v = (q + 1) * 2 ^ sh \<and> v < 2 ^ 1024"
        by simp
      then show ?thesis by blast
    next
      case False
      with q have "q + 1 = 2 ^ 53" by simp
      with q1 v have "v = 2 ^ 52 * 2 ^ Suc sh" by simp
      with fin have
        "1 \<le> Suc sh \<and> (2::nat) ^ 52 \<le> 2 ^ 52 \<and> (2::nat) ^ 52 < 2 ^ 53 \<and> v = 2 ^ 52 * 2 ^ Suc sh \<and> v < 2 ^ 1024"
        by simp
      then show ?thesis by blast
    qed
  qed
qed

lemma roundNumber_succ:
  assumes "2 ^ 52 \<le> q" and "q < 2 ^ 53" and "1 \<le> sh" and "q * 2 ^ sh < 2 ^ 1024"
  shows "roundNumber (q * 2 ^ sh + 1) =
           Finite (if sh = 1 \<and> odd q then q * 2 ^ sh + 2 else q * 2 ^ sh)"
proof -
  have "(2::nat) ^ 1 \<le> 2 ^ sh" using assms(3) by (intro power_increasing) simp_all
  then have r: "(1::nat) < 2 ^ sh" by simp
  have half: "(1::nat) = 2 ^ (sh - 1) \<longleftrightarrow> sh = 1" using assms(3)
    by (cases "sh - 1") auto
  have nhalf: "\<not> (2::nat) ^ (sh - 1) < 1" by simp
  show ?thesis
  proof (cases "sh = 1 \<and> odd q")
    case True
    then have "(q + 1) * 2 ^ sh \<le> 2 ^ 53 * 2 ^ 1" using assms(2) by simp
    also have "\<dots> < (2::nat) ^ 1024" by simp
    finally have "\<not> 2 ^ 1024 \<le> (q + 1) * 2 ^ sh" by simp
    with True show ?thesis
      unfolding roundNumber_decomp [OF assms(1,2,3) r] by (simp add: Let_def)
  next
    case False
    with assms(4) half show ?thesis
      unfolding roundNumber_decomp [OF assms(1,2,3) r] by (auto simp add: Let_def)
  qed
qed

lemma roundNumber_odd_exact:
  assumes "roundNumber n = Finite (2 * q)" and "odd q" and "2 ^ 52 \<le> q"
  shows "n = 2 * q"
proof (cases "n < 2 ^ 53")
  case True
  with assms show ?thesis by (simp add: roundNumber_def)
next
  case False
  then have "2 ^ 53 \<le> n" by simp
  from large_decomp [OF this] obtain q0 sh r where
    q0: "2 ^ 52 \<le> q0" "q0 < 2 ^ 53" and sh: "1 \<le> sh" and r: "r < 2 ^ sh"
    and n: "n = q0 * 2 ^ sh + r" by blast
  define q' where "q' = (if 2 ^ (sh - 1) < r \<or> (r = 2 ^ (sh - 1) \<and> odd q0) then q0 + 1 else q0)"
  have "roundNumber n = (if 2 ^ 1024 \<le> q' * 2 ^ sh then Infinity else Finite (q' * 2 ^ sh))"
    unfolding n q'_def using roundNumber_decomp [OF q0 sh r] by (simp only: Let_def)
  with assms(1) have v: "2 * q = q' * 2 ^ sh" by (simp split: if_splits)
  have sh1: "sh = 1"
  proof (rule ccontr)
    assume "sh \<noteq> 1"
    with sh obtain k where "sh = Suc (Suc k)" by (cases sh; cases "sh - 1") auto
    with v have "2 * q = 2 * (2 * (q' * 2 ^ k))" by simp
    then have "q = 2 * (q' * 2 ^ k)" by simp
    with assms(2) show False by simp
  qed
  with v have qq: "q' = q" by simp
  from r sh1 have "r = 0 \<or> r = 1" by auto
  then have "r = 0"
  proof
    assume "r = 1"
    with sh1 have "even q'" by (simp add: q'_def)
    with qq assms(2) show ?thesis by simp
  qed simp
  with sh1 have "q' = q0" by (simp add: q'_def)
  with qq n sh1 \<open>r = 0\<close> show ?thesis by simp
qed

section \<open>Where the loop returns\<close>

lemma parseInt10_digits:
  "ds \<noteq> [] \<Longrightarrow> \<forall>c\<in>set ds. isDigit c \<Longrightarrow> parseInt10 ds = roundNumber (digitsValue ds)"
  by (simp add: parseInt10_def Let_def takeWhile_eq_all_conv [THEN iffD2])

lemma parseInt10_parseSerial:
  "parseSerial s = Some p \<Longrightarrow> parseInt10 (numStr p) = roundNumber (digitsValue (numStr p))"
  using parseSerial_Some(2,3) [of s p] by (simp add: parseInt10_digits)

lemma roundNumber_2_53_succ: "roundNumber 9007199254740993 = Finite 9007199254740992"
  by (simp add: roundNumber_def bitLength.simps Let_def)

lemma numLe_trans_Finite: "a \<le> b \<Longrightarrow> numLe (Finite b) e \<Longrightarrow> numLe (Finite a) e"
  by (cases e) simp_all

lemma expandLoop_climb:
  "s \<le> 2 ^ 53 \<Longrightarrow> numLe (Finite (2 ^ 53)) e \<Longrightarrow> expandLoop L (Finite s) e w p x res = None"
proof (induction "2 ^ 53 - s" arbitrary: s res)
  case 0
  then have "s = 9007199254740992" by simp
  with 0 show ?case by (intro expandLoop_stuck) (simp_all add: roundNumber_2_53_succ)
next
  case (Suc k)
  then have s: "Suc s \<le> 2 ^ 53" and k: "k = 2 ^ 53 - Suc s" by simp_all
  have le: "numLe (Finite s) e" using Suc.prems by (intro numLe_trans_Finite [of s "2 ^ 53"]) simp_all
  have inc: "increment (Finite s) = Finite (Suc s)"
  proof (cases "Suc s < 2 ^ 53")
    case True then show ?thesis by (simp add: roundNumber_small)
  next
    case False
    with s have "Suc s = 9007199254740992" by simp
    then show ?thesis by (simp add: roundNumber_2_53)
  qed
  have "expandLoop L (Finite s) e w p x res =
        (if length res < L
         then expandLoop L (Finite (Suc s)) e w p x (res @ [p @ padStart w (decimal s) @ x])
         else None)"
    using le inc by (subst expandLoop.simps) simp
  also have "\<dots> = None" using Suc.hyps(1) [OF k s Suc.prems(2)] by simp
  finally show ?case .
qed

lemma expandLoop_room:
  "numLe i e \<Longrightarrow> expandLoop L i e w p x res = Some xs \<Longrightarrow> length res < L"
  by (subst (asm) expandLoop.simps) (simp split: if_splits)

lemma expandLoop_large:
  assumes s: "2 ^ 53 \<le> s" and a: "roundNumber a = Finite s" and b: "roundNumber b = e"
    and le: "numLe (Finite s) e"
    and ret: "expandLoop L (Finite s) e w p x res = Some xs"
  shows "a = s \<and> b = s \<and> xs = res @ [p @ padStart w (decimal s) @ x]"
proof -
  from roundNumber_large_form [OF a s] obtain q sh where
    sh: "1 \<le> sh" and q: "2 ^ 52 \<le> q" "q < 2 ^ 53" and sq: "s = q * 2 ^ sh" and fin: "s < 2 ^ 1024"
    by blast
  have inc: "increment (Finite s) = Finite (if sh = 1 \<and> odd q then s + 2 else s)"
    using roundNumber_succ [OF q sh fin [unfolded sq]] by (simp add: sq)
  have odd: "sh = 1 \<and> odd q"
  proof (rule ccontr)
    assume "\<not> (sh = 1 \<and> odd q)"
    with inc have "increment (Finite s) = Finite s" by simp
    from expandLoop_stuck [OF this le] ret show False by simp
  qed
  with inc have inc2: "increment (Finite s) = Finite (s + 2)" by simp
  from odd sq have s2: "s = 2 * q" by simp
  have stuck2: "increment (Finite (s + 2)) = Finite (s + 2)"
  proof (cases "q + 1 < 2 ^ 53")
    case True
    have "roundNumber ((q + 1) * 2 ^ 1 + 1) =
          Finite (if (1::nat) = 1 \<and> odd (q + 1) then (q + 1) * 2 ^ 1 + 2 else (q + 1) * 2 ^ 1)"
      using q True by (intro roundNumber_succ) simp_all
    with odd show ?thesis by (simp add: s2 mult.commute)
  next
    case False
    with q have q1: "q + 1 = 2 ^ 53" by simp
    have "roundNumber (2 ^ 52 * 2 ^ 2 + 1) =
          Finite (if (2::nat) = 1 \<and> odd ((2::nat) ^ 52) then 2 ^ 52 * 2 ^ 2 + 2 else 2 ^ 52 * 2 ^ 2)"
      by (intro roundNumber_succ) simp_all
    moreover have "s + 2 = 2 ^ 52 * 2 ^ 2" using q1 by (simp add: s2)
    ultimately show ?thesis by simp
  qed
  from expandLoop_room [OF le ret] have room: "length res < L" .
  have step: "expandLoop L (Finite s) e w p x res =
        expandLoop L (Finite (s + 2)) e w p x (res @ [p @ padStart w (decimal s) @ x])"
    using le inc2 room by (subst expandLoop.simps) simp
  with ret have ret2:
    "expandLoop L (Finite (s + 2)) e w p x (res @ [p @ padStart w (decimal s) @ x]) = Some xs"
    by simp
  have nle: "\<not> numLe (Finite (s + 2)) e"
  proof
    assume "numLe (Finite (s + 2)) e"
    from expandLoop_stuck [OF stuck2 this] ret2 show False by simp
  qed
  then have xs: "xs = res @ [p @ padStart w (decimal s) @ x]"
    using ret2 by (subst (asm) expandLoop.simps) simp
  from nle le obtain e' where e: "e = Finite e'" and e1: "s \<le> e'" and e2: "e' < s + 2"
    by (cases e) auto
  from roundNumber_large_form [OF b [unfolded e]] s e1 obtain qe she where
    "1 \<le> she" and "e' = qe * 2 ^ she" by auto
  then have "even e'" by (cases she) simp_all
  with e1 e2 s2 have "e' = s" by presburger
  from a s2 have "a = s" using roundNumber_odd_exact [of a q] odd q by simp
  moreover from b e \<open>e' = s\<close> s2 have "b = s" using roundNumber_odd_exact [of b q] odd q by simp
  ultimately show ?thesis using xs by simp
qed

lemma expandLoop_beyond:
  assumes s: "2 ^ 54 \<le> s" and a: "roundNumber a = Finite s" and le: "numLe (Finite s) e"
  shows "expandLoop L (Finite s) e w p x res = None"
proof -
  from s have "(2::nat) ^ 53 \<le> s" by simp
  from roundNumber_large_form [OF a this] obtain q sh where
    sh: "1 \<le> sh" and q: "2 ^ 52 \<le> q" "q < 2 ^ 53" and sq: "s = q * 2 ^ sh" and fin: "s < 2 ^ 1024"
    by blast
  have "sh \<noteq> 1"
  proof
    assume "sh = 1"
    with sq q(2) have "s < 2 ^ 54" by simp
    with s show False by simp
  qed
  with roundNumber_succ [OF q sh fin [unfolded sq]] have "increment (Finite s) = Finite s"
    by (simp add: sq)
  from expandLoop_stuck [OF this le] show ?thesis .
qed

section \<open>The results of expandRange\<close>

lemma not_numGt_numLe:
  "a \<noteq> NaN \<Longrightarrow> b \<noteq> NaN \<Longrightarrow> \<not> numGt a b \<longleftrightarrow> numLe a b"
  by (cases a; cases b) auto

lemma expandRange_invalid:
  "parseSerial start = None \<or> parseSerial end = None \<Longrightarrow>
   expandRange L start end = Some (Inl errInvalidFormat)"
  by (auto simp: expandRange_def split: option.splits)

lemma expandRange_mismatch:
  "parseSerial start = Some sp \<Longrightarrow> parseSerial end = Some ep \<Longrightarrow>
   prefix sp \<noteq> prefix ep \<or> suffix sp \<noteq> suffix ep \<Longrightarrow>
   expandRange L start end = Some (Inl errTextParts)"
  by (auto simp: expandRange_def)

lemma expandRange_matching:
  assumes "parseSerial start = Some sp" and "parseSerial end = Some ep"
    and "prefix sp = prefix ep" and "suffix sp = suffix ep"
  shows "expandRange L start end =
     (if numGt (roundNumber (digitsValue (numStr sp))) (roundNumber (digitsValue (numStr ep)))
      then Some (Inl errStartGreater)
      else map_option Inr
             (expandLoop L (roundNumber (digitsValue (numStr sp)))
                (roundNumber (digitsValue (numStr ep)))
                (max (length (numStr sp)) (length (numStr ep))) (prefix sp) (suffix sp) []))"
  using assms parseInt10_parseSerial [OF assms(1)] parseInt10_parseSerial [OF assms(2)]
  by (simp add: expandRange_def Let_def)

lemma errors_distinct:
  "errInvalidFormat \<noteq> errTextParts" "errInvalidFormat \<noteq> errStartGreater"
  "errTextParts \<noteq> errStartGreater" "errTextParts \<noteq> errInvalidFormat"
  "errStartGreater \<noteq> errInvalidFormat" "errStartGreater \<noteq> errTextParts"
  by (simp_all add: errInvalidFormat_def errTextParts_def errStartGreater_def)

lemma expandLoop_returns:
  assumes le: "\<not> numGt (roundNumber a) (roundNumber b)"
    and ret: "expandLoop L (roundNumber a) (roundNumber b) w p x [] = Some xs"
  shows "a \<le> b \<and> xs = map (\<lambda>n. p @ padStart w (decimal n) @ x) [a..<Suc b] \<and>
         roundNumber a = Finite a \<and> roundNumber b = Finite b \<and> Suc b - a \<le> L"
proof -
  from le have nle: "numLe (roundNumber a) (roundNumber b)"
    by (simp add: not_numGt_numLe roundNumber_not_NaN)
  show ?thesis
  proof (cases "roundNumber a")
    case NaN
    then show ?thesis by (simp add: roundNumber_not_NaN)
  next
    case Infinity
    with nle have "increment (roundNumber a) = roundNumber a" by simp
    from expandLoop_stuck [OF this nle] ret show ?thesis by simp
  next
    case (Finite s)
    show ?thesis
    proof (cases "s < 2 ^ 53")
      case False
      then have "2 ^ 53 \<le> s" by simp
      from expandLoop_large [OF this Finite refl nle [unfolded Finite] ret [unfolded Finite]]
      have "a = s \<and> b = s \<and> xs = [] @ [p @ padStart w (decimal s) @ x]" .
      moreover from expandLoop_room [OF nle ret] have "0 < L" by simp
      ultimately show ?thesis using Finite by simp
    next
      case True
      with Finite have a: "a = s" by (rule roundNumber_small_inv)
      have small: "\<exists>e. roundNumber b = Finite e \<and> e < 2 ^ 53"
      proof (rule ccontr)
        assume "\<not> ?thesis"
        then have "numLe (Finite (2 ^ 53)) (roundNumber b)"
          using roundNumber_not_NaN [of b] by (cases "roundNumber b") auto
        with True have "expandLoop L (Finite s) (roundNumber b) w p x [] = None"
          by (intro expandLoop_climb) simp_all
        with ret Finite show False by simp
      qed
      then obtain e where e: "roundNumber b = Finite e" and e53: "e < 2 ^ 53" by blast
      then have b: "b = e" by (rule roundNumber_small_inv)
      from nle Finite e have se: "s \<le> e" by simp
      then have "expandLoop L (Finite s) (Finite e) w p x [] =
          (if length ([]::string list) + (Suc e - s) \<le> L
           then Some ([] @ map (\<lambda>n. p @ padStart w (decimal n) @ x) [s..<Suc e])
           else None)"
        using e53 by (intro expandLoop_small) simp_all
      with ret Finite e a b se show ?thesis by (simp split: if_splits)
    qed
  qed
qed

lemma expandRange_returns:
  assumes "expandRange L start end = Some (Inr xs)"
  shows "\<exists>sp ep. parseSerial start = Some sp \<and> parseSerial end = Some ep \<and>
           prefix ep = prefix sp \<and> suffix ep = suffix sp \<and>
           digitsValue (numStr sp) \<le> digitsValue (numStr ep) \<and>
           xs = map (\<lambda>n. prefix sp @
                          padStart (max (length (numStr sp)) (length (numStr ep))) (decimal n) @
                          suffix sp)
                    [digitsValue (numStr sp)..<Suc (digitsValue (numStr ep))]"
proof -
  from assms obtain sp ep where sp: "parseSerial start = Some sp" and ep: "parseSerial end = Some ep"
    by (cases "parseSerial start"; cases "parseSerial end") (auto simp: expandRange_def)
  have eq: "prefix sp = prefix ep \<and> suffix sp = suffix ep"
  proof (rule ccontr)
    assume "\<not> ?thesis"
    then have "expandRange L start end = Some (Inl errTextParts)"
      using sp ep by (intro expandRange_mismatch) auto
    with assms show False by simp
  qed
  then have m: "prefix sp = prefix ep" "suffix sp = suffix ep" by simp_all
  from assms have le: "\<not> numGt (roundNumber (digitsValue (numStr sp))) (roundNumber (digitsValue (numStr ep)))"
    and "map_option Inr
             (expandLoop L (roundNumber (digitsValue (numStr sp)))
                (roundNumber (digitsValue (numStr ep)))
                (max (length (numStr sp)) (length (numStr ep))) (prefix sp) (suffix sp) [])
         = Some (Inr xs)"
    unfolding expandRange_matching [OF sp ep m] by (auto split: if_splits)
  then have "expandLoop L (roundNumber (digitsValue (numStr sp)))
                (roundNumber (digitsValue (numStr ep)))
                (max (length (numStr sp)) (length (numStr ep))) (prefix sp) (suffix sp) [] = Some xs"
    by auto
  from expandLoop_returns [OF le this] sp ep m show ?thesis by simp
qed

lemma expandRange_returns_exact:
  assumes "expandRange L start end = Some (Inr xs)"
    and sp: "parseSerial start = Some sp" and ep: "parseSerial end = Some ep"
  shows "roundNumber (digitsValue (numStr sp)) = Finite (digitsValue (numStr sp)) \<and>
         roundNumber (digitsValue (numStr ep)) = Finite (digitsValue (numStr ep)) \<and>
         Suc (digitsValue (numStr ep)) - digitsValue (numStr sp) \<le> L"
proof -
  have eq: "prefix sp = prefix ep \<and> suffix sp = suffix ep"
  proof (rule ccontr)
    assume "\<not> ?thesis"
    then have "expandRange L start end = Some (Inl errTextParts)"
      using sp ep by (intro expandRange_mismatch) auto
    with assms show False by simp
  qed
  then have m: "prefix sp = prefix ep" "suffix sp = suffix ep" by simp_all
  from assms(1) have le: "\<not> numGt (roundNumber (digitsValue (numStr sp))) (roundNumber (digitsValue (numStr ep)))"
    and "map_option Inr
             (expandLoop L (roundNumber (digitsValue (numStr sp)))
                (roundNumber (digitsValue (numStr ep)))
                (max (length (numStr sp)) (length (numStr ep))) (prefix sp) (suffix sp) [])
         = Some (Inr xs)"
    unfolding expandRange_matching [OF sp ep m] by (auto split: if_splits)
  then have "expandLoop L (roundNumber (digitsValue (numStr sp)))
                (roundNumber (digitsValue (numStr ep)))
                (max (length (numStr sp)) (length (numStr ep))) (prefix sp) (suffix sp) [] = Some xs"
    by auto
  from expandLoop_returns [OF le this] show ?thesis by simp
qed

lemma expandRange_small:
  assumes sp: "parseSerial start = Some sp" and ep: "parseSerial end = Some ep"
    and m: "prefix sp = prefix ep" "suffix sp = suffix ep"
    and le: "digitsValue (numStr sp) \<le> digitsValue (numStr ep)"
    and safe: "digitsValue (numStr ep) < 2 ^ 53"
  shows "expandRange L start end =
     (if Suc (digitsValue (numStr ep)) - digitsValue (numStr sp) \<le> L
      then Some (Inr (map (\<lambda>n. prefix sp @
                          padStart (max (length (numStr sp)) (length (numStr ep))) (decimal n) @
                          suffix sp)
                    [digitsValue (numStr sp)..<Suc (digitsValue (numStr ep))]))
      else None)"
proof -
  from le safe have a: "roundNumber (digitsValue (numStr sp)) = Finite (digitsValue (numStr sp))"
    by (intro roundNumber_small) simp
  from safe have b: "roundNumber (digitsValue (numStr ep)) = Finite (digitsValue (numStr ep))"
    by (rule roundNumber_small)
  show ?thesis
    unfolding expandRange_matching [OF sp ep m] a b using le safe
    by (simp add: expandLoop_small)
qed

lemma expandRange_safe:
  assumes sp: "parseSerial start = Some sp" and ep: "parseSerial end = Some ep"
    and m: "prefix sp = prefix ep" "suffix sp = suffix ep"
    and le: "digitsValue (numStr sp) \<le> digitsValue (numStr ep)"
    and safe: "digitsValue (numStr ep) < 2 ^ 53"
    and room: "Suc (digitsValue (numStr ep)) - digitsValue (numStr sp) \<le> L"
  shows "expandRange L start end =
     Some (Inr (map (\<lambda>n. prefix sp @
                          padStart (max (length (numStr sp)) (length (numStr ep))) (decimal n) @
                          suffix sp)
                    [digitsValue (numStr sp)..<Suc (digitsValue (numStr ep))]))"
  using expandRange_small [OF sp ep m le safe] room by simp

lemma expandRange_reversed:
  assumes sp: "parseSerial start = Some sp" and ep: "parseSerial end = Some ep"
    and m: "prefix sp = prefix ep" "suffix sp = suffix ep"
    and gt: "digitsValue (numStr ep) < digitsValue (numStr sp)"
    and safe: "digitsValue (numStr sp) < 2 ^ 53"
  shows "expandRange L start end = Some (Inl errStartGreater)"
proof -
  from safe have a: "roundNumber (digitsValue (numStr sp)) = Finite (digitsValue (numStr sp))"
    by (rule roundNumber_small)
  from gt safe have b: "roundNumber (digitsValue (numStr ep)) = Finite (digitsValue (numStr ep))"
    by (intro roundNumber_small) simp
  show ?thesis
    unfolding expandRange_matching [OF sp ep m] a b using gt by simp
qed

section \<open>The parser finds the only rightmost run\<close>

lemma takeWhile_stop:
  "\<forall>a\<in>set xs. P a \<Longrightarrow> ys = [] \<or> \<not> P (hd ys) \<Longrightarrow> takeWhile P (xs @ ys) = xs"
  by (induction xs) (auto, cases ys, auto)

lemma dropWhile_stop:
  "\<forall>a\<in>set xs. P a \<Longrightarrow> ys = [] \<or> \<not> P (hd ys) \<Longrightarrow> dropWhile P (xs @ ys) = ys"
  by (induction xs) (auto, cases ys, auto)

lemma rightmost_run_suffix:
  assumes "ds \<noteq> []" and "\<forall>c\<in>set ds. isDigit c" and "\<forall>c\<in>set x. \<not> isDigit c"
  shows "takeWhile (\<lambda>c. \<not> isDigit c) (rev (p @ ds @ x)) = rev x"
    and "dropWhile (\<lambda>c. \<not> isDigit c) (rev (p @ ds @ x)) = rev ds @ rev p"
proof -
  from assms(1,2) have "isDigit (last ds)" by simp
  with assms(1) have stop: "rev ds @ rev p = [] \<or> \<not> \<not> isDigit (hd (rev ds @ rev p))"
    by (simp add: hd_rev)
  from assms(3) have all: "\<forall>c\<in>set (rev x). \<not> isDigit c" by simp
  show "takeWhile (\<lambda>c. \<not> isDigit c) (rev (p @ ds @ x)) = rev x"
    using takeWhile_stop [OF all stop] by simp
  show "dropWhile (\<lambda>c. \<not> isDigit c) (rev (p @ ds @ x)) = rev ds @ rev p"
    using dropWhile_stop [OF all stop] by simp
qed

lemma rightmost_run_digits:
  assumes "\<forall>c\<in>set ds. isDigit c" and "p = [] \<or> \<not> isDigit (last p)"
  shows "takeWhile isDigit (rev ds @ rev p) = rev ds"
proof -
  from assms(2) have "rev p = [] \<or> \<not> isDigit (hd (rev p))" by (auto simp: hd_rev)
  moreover from assms(1) have "\<forall>c\<in>set (rev ds). isDigit c" by simp
  ultimately show ?thesis by (intro takeWhile_stop)
qed

lemma rightmost_run_unique:
  assumes "p @ ds @ x = p' @ ds' @ x'"
    and "ds \<noteq> []" "\<forall>c\<in>set ds. isDigit c" "\<forall>c\<in>set x. \<not> isDigit c" "p = [] \<or> \<not> isDigit (last p)"
    and "ds' \<noteq> []" "\<forall>c\<in>set ds'. isDigit c" "\<forall>c\<in>set x'. \<not> isDigit c"
        "p' = [] \<or> \<not> isDigit (last p')"
  shows "p = p' \<and> ds = ds' \<and> x = x'"
proof -
  have "rev x = rev x'"
    using rightmost_run_suffix(1) [OF assms(2,3,4), of p]
          rightmost_run_suffix(1) [OF assms(6,7,8), of p'] assms(1) by simp
  then have x: "x = x'" by simp
  have "rev ds @ rev p = rev ds' @ rev p'"
    using rightmost_run_suffix(2) [OF assms(2,3,4), of p]
          rightmost_run_suffix(2) [OF assms(6,7,8), of p'] assms(1) by simp
  then have "rev ds = rev ds'"
    using rightmost_run_digits [OF assms(3,5)] rightmost_run_digits [OF assms(7,9)] by simp
  then have d: "ds = ds'" by simp
  with x assms(1) show ?thesis by simp
qed


section \<open>Worked examples and the elements of a result\<close>

lemma decimal_no_leading_zero: "n \<noteq> 0 \<Longrightarrow> hd (decimal n) \<noteq> CHR ''0''"
proof (induction n rule: decimal.induct)
  case (1 n)
  show ?case
  proof (cases "n < 10")
    case True
    have "n = 0" if "digitChar n = CHR ''0''"
      using digitVal_digitChar [OF True] that by (simp add: digitVal_zero)
    with 1(2) True show ?thesis by (subst decimal.simps) auto
  next
    case False
    then have "n div 10 \<noteq> 0" by simp
    with 1(1) False have "hd (decimal (n div 10)) \<noteq> CHR ''0''" by simp
    with False show ?thesis
      by (subst decimal.simps) (simp add: decimal_nonempty)
  qed
qed

lemma parseSerial_simps:
  "parseSerial ''IT-9'' = Some \<lparr> prefix = ''IT-'', numStr = ''9'', suffix = '''' \<rparr>"
  "parseSerial ''IT-11'' = Some \<lparr> prefix = ''IT-'', numStr = ''11'', suffix = '''' \<rparr>"
  "parseSerial ''IT-001'' = Some \<lparr> prefix = ''IT-'', numStr = ''001'', suffix = '''' \<rparr>"
  "parseSerial ''IT-003'' = Some \<lparr> prefix = ''IT-'', numStr = ''003'', suffix = '''' \<rparr>"
  "parseSerial ''X5'' = Some \<lparr> prefix = ''X'', numStr = ''5'', suffix = '''' \<rparr>"
  "parseSerial ''1'' = Some \<lparr> prefix = '''', numStr = ''1'', suffix = '''' \<rparr>"
  "parseSerial ''1000'' = Some \<lparr> prefix = '''', numStr = ''1000'', suffix = '''' \<rparr>"
  "parseSerial ''1001'' = Some \<lparr> prefix = '''', numStr = ''1001'', suffix = '''' \<rparr>"
  by (simp_all add: parseSerial_def isDigit_def substring_def substringFrom_def)

lemma digitChar_simps:
  "digitChar 0 = CHR ''0''" "digitChar 1 = CHR ''1''" "digitChar 2 = CHR ''2''"
  "digitChar 3 = CHR ''3''" "digitChar 4 = CHR ''4''" "digitChar 5 = CHR ''5''"
  "digitChar 6 = CHR ''6''" "digitChar 7 = CHR ''7''" "digitChar 8 = CHR ''8''"
  "digitChar 9 = CHR ''9''" "digitChar (Suc 0) = CHR ''1''"
  by (simp_all add: digitChar_def char_of_def bit_0)

lemma decimal_simps:
  "decimal (Suc 0) = ''1''" "decimal 2 = ''2''" "decimal 3 = ''3''" "decimal 5 = ''5''"
  "decimal 9 = ''9''" "decimal 10 = ''10''" "decimal 11 = ''11''"
  "decimal 1000 = ''1000''" "decimal 1001 = ''1001''"
  by (simp_all add: decimal.simps digitChar_simps)

lemma upt_examples:
  "[9..<12] = [9, 10, 11]" "[Suc 0..<4] = [Suc 0, 2, 3]" "[5..<6] = [5]"
  by (simp_all add: upt_rec eval_nat_numeral)

lemma digitsValue_simps:
  "digitsValue ''9'' = 9" "digitsValue ''11'' = 11" "digitsValue ''001'' = 1"
  "digitsValue ''003'' = 3" "digitsValue ''5'' = 5" "digitsValue ''1'' = 1"
  "digitsValue ''1000'' = 1000" "digitsValue ''1001'' = 1001"
  by (simp_all add: digitsValue_def digitVal_def)

lemma expandRange_IT_9_11:
  "3 \<le> L \<Longrightarrow> expandRange L ''IT-9'' ''IT-11'' = Some (Inr [''IT-09'', ''IT-10'', ''IT-11''])"
  by (subst expandRange_safe [OF parseSerial_simps(1) parseSerial_simps(2)])
     (simp_all add: digitsValue_simps upt_examples padStart_def decimal_simps)

lemma expandRange_IT_001_003:
  "3 \<le> L \<Longrightarrow>
   expandRange L ''IT-001'' ''IT-003'' = Some (Inr [''IT-001'', ''IT-002'', ''IT-003''])"
  by (subst expandRange_safe [OF parseSerial_simps(3) parseSerial_simps(4)])
     (simp_all add: digitsValue_simps upt_examples padStart_def decimal_simps)

lemma expandRange_X5:
  "1 \<le> L \<Longrightarrow> expandRange L ''X5'' ''X5'' = Some (Inr [''X5''])"
  by (subst expandRange_safe [OF parseSerial_simps(5) parseSerial_simps(5)])
     (simp_all add: digitsValue_simps upt_examples padStart_def decimal_simps)

lemma expandRange_elements:
  assumes "expandRange L start end = Some (Inr xs)"
  shows "\<exists>sp ep. parseSerial start = Some sp \<and> parseSerial end = Some ep \<and>
    prefix ep = prefix sp \<and> suffix ep = suffix sp \<and>
    digitsValue (numStr sp) \<le> digitsValue (numStr ep) \<and>
    length xs = digitsValue (numStr ep) - digitsValue (numStr sp) + 1 \<and>
    (\<forall>i<length xs.
           xs ! i = prefix sp @
             padStart (max (length (numStr sp)) (length (numStr ep)))
               (decimal (digitsValue (numStr sp) + i)) @ suffix sp)"
proof -
  from expandRange_returns [OF assms] obtain sp ep where
    sp: "parseSerial start = Some sp" and ep: "parseSerial end = Some ep"
    and m: "prefix ep = prefix sp" "suffix ep = suffix sp"
    and le: "digitsValue (numStr sp) \<le> digitsValue (numStr ep)"
    and xs: "xs = map (\<lambda>n. prefix sp @
                          padStart (max (length (numStr sp)) (length (numStr ep))) (decimal n) @
                          suffix sp)
                    [digitsValue (numStr sp)..<Suc (digitsValue (numStr ep))]"
    by blast
  from xs le have len: "length xs = digitsValue (numStr ep) - digitsValue (numStr sp) + 1"
    by simp
  have "\<forall>i<length xs. xs ! i = prefix sp @
             padStart (max (length (numStr sp)) (length (numStr ep)))
               (decimal (digitsValue (numStr sp) + i)) @ suffix sp"
    unfolding xs by (simp del: upt_Suc)
  with sp ep m le len show ?thesis by blast
qed

lemma expandRange_length:
  assumes "expandRange L start end = Some (Inr xs)"
  shows "length xs \<le> L"
proof -
  from expandRange_returns [OF assms] obtain sp ep where
    sp: "parseSerial start = Some sp" and ep: "parseSerial end = Some ep"
    and le: "digitsValue (numStr sp) \<le> digitsValue (numStr ep)"
    and xs: "xs = map (\<lambda>n. prefix sp @
                          padStart (max (length (numStr sp)) (length (numStr ep))) (decimal n) @
                          suffix sp)
                    [digitsValue (numStr sp)..<Suc (digitsValue (numStr ep))]"
    by blast
  from xs have "length xs = Suc (digitsValue (numStr ep)) - digitsValue (numStr sp)"
    by (simp del: upt_Suc)
  with expandRange_returns_exact [OF assms sp ep] show ?thesis by simp
qed

lemma padStart_props:
  "padStart w s = replicate (w - length s) (CHR ''0'') @ s"
  "w \<le> length (replicate (w - length s) (CHR ''0'') @ s)"
  "w \<le> length s \<Longrightarrow> replicate (w - length s) (CHR ''0'') @ s = s"
  by (simp_all add: padStart_def)

section \<open>The callers\<close>

lemma parseSerial_empty: "parseSerial [] = None"
  by (simp add: parseSerial_def)

lemma expandRange_Inr_nonempty:
  assumes "expandRange L start end = Some (Inr xs)"
  shows "start \<noteq> [] \<and> end \<noteq> []"
proof (rule ccontr)
  assume "\<not> ?thesis"
  then have "parseSerial start = None \<or> parseSerial end = None"
    by (auto simp: parseSerial_empty)
  from expandRange_invalid [OF this, of L] assms show False by simp
qed

lemma serialsProcessingResult_range:
  assumes "expandRange L (trim a) (trim b) = Some (Inr xs)"
  shows "serialsProcessingResult L ModeRange \<lparr> firstSerial = a, lastSerial = b, barcodes = t \<rparr> =
     Some (if 1000 < length xs
           then \<lparr> serials = [], error = Some (errRangeTooLarge (length xs)) \<rparr>
           else \<lparr> serials = xs, error = None \<rparr>)"
  using assms expandRange_Inr_nonempty [OF assms]
  by (simp add: serialsProcessingResult_def Let_def)

lemma scannedSerialsProcessingResult_range:
  assumes "expandRange L (trim a) (trim b) = Some (Inr xs)"
    and "map_option category (find (\<lambda>it. typeName it = name) itemTypes) = Some METERS"
  shows "scannedSerialsProcessingResult L itemTypes
       \<lparr> scannedName = name, scannedFirstSerial = Some a, scannedLastSerial = Some b \<rparr> =
     Some (if 1000 < length xs
           then \<lparr> serials = [], error = Some (errRangeTooLarge (length xs)) \<rparr>
           else \<lparr> serials = xs, error = None \<rparr>)"
proof -
  from expandRange_Inr_nonempty [OF assms(1)] have "trim a \<noteq> []" "trim b \<noteq> []" by simp_all
  with assms show ?thesis
    by (auto simp: scannedSerialsProcessingResult_def Let_def)
qed

lemma serialsProcessingResult_throws:
  assumes "expandRange L (trim a) (trim b) = None" and "trim a \<noteq> []" and "trim b \<noteq> []"
  shows "serialsProcessingResult L ModeRange \<lparr> firstSerial = a, lastSerial = b, barcodes = t \<rparr> =
     None"
  using assms by (simp add: serialsProcessingResult_def Let_def)

lemma scannedSerialsProcessingResult_throws:
  assumes "expandRange L (trim a) (trim b) = None" and "trim a \<noteq> []" and "trim b \<noteq> []"
    and "map_option category (find (\<lambda>it. typeName it = name) itemTypes) = Some METERS"
  shows "scannedSerialsProcessingResult L itemTypes
       \<lparr> scannedName = name, scannedFirstSerial = Some a, scannedLastSerial = Some b \<rparr> = None"
  using assms by (auto simp: scannedSerialsProcessingResult_def Let_def)

lemma trim_plain:
  "trim ''1'' = ''1''" "trim ''1000'' = ''1000''" "trim ''1001'' = ''1001''"
  "trim ''9007199254740992'' = ''9007199254740992''"
  by (simp_all add: trim_def isWhiteSpace_def)

lemma expandRange_plain:
  assumes "parseSerial start = Some \<lparr> prefix = [], numStr = ns, suffix = [] \<rparr>"
    and "parseSerial end = Some \<lparr> prefix = [], numStr = ne, suffix = [] \<rparr>"
    and "digitsValue ns \<le> digitsValue ne" and "digitsValue ne < 2 ^ 53"
    and "Suc (digitsValue ne) - digitsValue ns \<le> L"
  shows "expandRange L start end =
     Some (Inr (map (\<lambda>n. padStart (max (length ns) (length ne)) (decimal n))
                  [digitsValue ns..<Suc (digitsValue ne)]))"
  using expandRange_safe [OF assms(1,2), of L] assms(3,4,5) by simp

lemma expandRange_1_1000:
  assumes "1000 \<le> L"
  shows "expandRange L ''1'' ''1000'' =
    Some (Inr (map (\<lambda>n. padStart 4 (decimal n)) [1..<1001]))"
proof -
  have "max (length ''1'') (length ''1000'') = 4" by simp
  with expandRange_plain [OF parseSerial_simps(6) parseSerial_simps(7), of L] assms
  show ?thesis by (simp only: digitsValue_simps) simp
qed

lemma expandRange_1_1001:
  assumes "1001 \<le> L"
  shows "expandRange L ''1'' ''1001'' =
    Some (Inr (map (\<lambda>n. padStart 4 (decimal n)) [1..<1002]))"
proof -
  have "max (length ''1'') (length ''1001'') = 4" by simp
  with expandRange_plain [OF parseSerial_simps(6) parseSerial_simps(8), of L] assms
  show ?thesis by (simp only: digitsValue_simps) simp
qed

section \<open>Numbers from 2 ^ 53 on\<close>

lemma expandLoop_at_2_53:
  "numLe (Finite 9007199254740992) e \<Longrightarrow>
   expandLoop L (Finite 9007199254740992) e w p x res = None"
  by (rule expandLoop_stuck) (simp_all add: roundNumber_2_53_succ)

lemma parseSerial_large:
  "parseSerial ''X9007199254740993'' =
     Some \<lparr> prefix = ''X'', numStr = ''9007199254740993'', suffix = '''' \<rparr>"
  "parseSerial ''X9007199254740992'' =
     Some \<lparr> prefix = ''X'', numStr = ''9007199254740992'', suffix = '''' \<rparr>"
  "parseSerial ''9007199254740993'' =
     Some \<lparr> prefix = '''', numStr = ''9007199254740993'', suffix = '''' \<rparr>"
  "parseSerial ''9007199254740992'' =
     Some \<lparr> prefix = '''', numStr = ''9007199254740992'', suffix = '''' \<rparr>"
  "parseSerial ''9007199254740995'' =
     Some \<lparr> prefix = '''', numStr = ''9007199254740995'', suffix = '''' \<rparr>"
  by (simp_all add: parseSerial_def isDigit_def substring_def substringFrom_def)

lemma digitsValue_large:
  "digitsValue ''9007199254740993'' = 9007199254740993"
  "digitsValue ''9007199254740992'' = 9007199254740992"
  "digitsValue ''9007199254740995'' = 9007199254740995"
  by (simp_all add: digitsValue_def digitVal_def)

lemma roundNumber_2_53_3: "roundNumber 9007199254740995 = Finite 9007199254740996"
  by (simp add: roundNumber_def bitLength.simps Let_def)

lemma expandRange_X_2_53:
  "expandRange L ''X9007199254740993'' ''X9007199254740992'' = None"
  unfolding expandRange_matching [OF parseSerial_large(1) parseSerial_large(2), simplified]
  by (simp add: digitsValue_large roundNumber_2_53_succ roundNumber_2_53 expandLoop_at_2_53)

lemma expandRange_1_2_53:
  "expandRange L ''1'' ''9007199254740992'' = None"
proof -
  have "expandLoop L (Finite 1) (Finite 9007199254740992) w p x [] = None" for w p x
    by (rule expandLoop_climb) simp_all
  then show ?thesis
    unfolding expandRange_matching [OF parseSerial_simps(6) parseSerial_large(4), simplified]
    by (simp add: digitsValue_large digitsValue_simps roundNumber_2_53 roundNumber_small)
qed

lemma expandRange_2_53_descending:
  "expandRange L ''9007199254740995'' ''9007199254740993'' = Some (Inl errStartGreater)"
  unfolding expandRange_matching [OF parseSerial_large(5) parseSerial_large(3), simplified]
  by (simp add: digitsValue_large roundNumber_2_53_succ roundNumber_2_53_3)

lemma expandRange_reversed_iff:
  assumes sp: "parseSerial start = Some sp" and ep: "parseSerial end = Some ep"
    and m: "prefix sp = prefix ep" "suffix sp = suffix ep"
  shows "expandRange L start end = Some (Inl errStartGreater) \<longleftrightarrow>
         numGt (parseInt10 (numStr sp)) (parseInt10 (numStr ep))"
  unfolding expandRange_matching [OF sp ep m]
    parseInt10_parseSerial [OF sp] parseInt10_parseSerial [OF ep]
  by (cases "expandLoop L (roundNumber (digitsValue (numStr sp)))
        (roundNumber (digitsValue (numStr ep)))
        (max (length (numStr sp)) (length (numStr ep))) (prefix sp) (suffix sp) []") simp_all

section \<open>Inexact runs and the cap\<close>

lemma expandRange_invalid_iff:
  "expandRange L start end = Some (Inl errInvalidFormat) \<longleftrightarrow>
   parseSerial start = None \<or> parseSerial end = None"
proof
  assume r: "expandRange L start end = Some (Inl errInvalidFormat)"
  show "parseSerial start = None \<or> parseSerial end = None"
  proof (rule ccontr)
    assume "\<not> ?thesis"
    then obtain sp ep where sp: "parseSerial start = Some sp" and ep: "parseSerial end = Some ep"
      by auto
    show False
    proof (cases "prefix sp = prefix ep \<and> suffix sp = suffix ep")
      case False
      then have "expandRange L start end = Some (Inl errTextParts)"
        using sp ep by (intro expandRange_mismatch) auto
      with r show False by (simp add: errors_distinct)
    next
      case True
      then have m: "prefix sp = prefix ep" "suffix sp = suffix ep" by simp_all
      from r show False
        unfolding expandRange_matching [OF sp ep m]
        by (auto simp: errors_distinct split: if_splits)
    qed
  qed
qed (rule expandRange_invalid)

lemma serialsProcessingResult_cap:
  "serialsProcessingResult L mode item = Some r \<Longrightarrow> length (serials r) \<le> 1000"
  by (cases mode)
     (auto simp: serialsProcessingResult_def Let_def split: if_splits option.splits sum.splits)

lemma scannedSerialsProcessingResult_cap:
  "scannedSerialsProcessingResult L itemTypes details = Some r \<Longrightarrow> length (serials r) \<le> 1000"
  by (auto simp: scannedSerialsProcessingResult_def Let_def
           split: if_splits option.splits sum.splits)

lemma expandRange_descending:
  assumes sp: "parseSerial start = Some sp" and ep: "parseSerial end = Some ep"
    and m: "prefix sp = prefix ep" "suffix sp = suffix ep"
    and gt: "digitsValue (numStr ep) < digitsValue (numStr sp)"
  shows "expandRange L start end =
     (if numGt (parseInt10 (numStr sp)) (parseInt10 (numStr ep))
      then Some (Inl errStartGreater)
      else None)"
proof (cases "numGt (parseInt10 (numStr sp)) (parseInt10 (numStr ep))")
  case True
  with expandRange_reversed_iff [OF sp ep m, of L] show ?thesis by simp
next
  case False
  have "expandRange L start end = None"
  proof (cases "expandRange L start end")
    case (Some r)
    show ?thesis
    proof (cases r)
      case (Inl e)
      with Some have "e = errStartGreater"
        unfolding expandRange_matching [OF sp ep m] by (auto split: if_splits)
      with Some Inl expandRange_reversed_iff [OF sp ep m, of L] False show ?thesis by simp
    next
      case (Inr xs)
      with Some have "expandRange L start end = Some (Inr xs)" by simp
      from expandRange_returns [OF this] sp ep gt show ?thesis by auto
    qed
  qed simp
  with False show ?thesis by simp
qed

lemma serialsProcessingResult_small:
  assumes sp: "parseSerial (trim a) = Some sp" and ep: "parseSerial (trim b) = Some ep"
    and m: "prefix sp = prefix ep" "suffix sp = suffix ep"
    and le: "digitsValue (numStr sp) \<le> digitsValue (numStr ep)"
    and safe: "digitsValue (numStr ep) < 2 ^ 53"
    and big: "1000 < digitsValue (numStr ep) - digitsValue (numStr sp) + 1"
  shows "serialsProcessingResult L ModeRange \<lparr> firstSerial = a, lastSerial = b, barcodes = t \<rparr> =
     (if digitsValue (numStr ep) - digitsValue (numStr sp) + 1 \<le> L
      then Some \<lparr> serials = [],
                  error = Some (errRangeTooLarge
                                  (digitsValue (numStr ep) - digitsValue (numStr sp) + 1)) \<rparr>
      else None)"
proof (cases "digitsValue (numStr ep) - digitsValue (numStr sp) + 1 \<le> L")
  case True
  with le have "Suc (digitsValue (numStr ep)) - digitsValue (numStr sp) \<le> L" by simp
  from serialsProcessingResult_range [OF expandRange_safe [OF sp ep m le safe this], of t] big le True
  show ?thesis by (simp add: Suc_diff_le del: upt_Suc)
next
  case False
  with le have "\<not> Suc (digitsValue (numStr ep)) - digitsValue (numStr sp) \<le> L" by simp
  with expandRange_small [OF sp ep m le safe, of L]
  have "expandRange L (trim a) (trim b) = None" by simp
  moreover from sp ep have "trim a \<noteq> []" "trim b \<noteq> []" by (auto simp: parseSerial_empty)
  ultimately show ?thesis using False by (simp add: serialsProcessingResult_throws)
qed

section \<open>List mode: lines and trimming\<close>

lemma splitLines_nonempty: "splitLines t \<noteq> []"
  by (induction t) (auto split: list.splits)

lemma splitLines_no_line_feed: "l \<in> set (splitLines t) \<Longrightarrow> CHR 0x0A \<notin> set l"
proof (induction t arbitrary: l)
  case Nil
  then show ?case by simp
next
  case (Cons c cs)
  show ?case
  proof (cases "c = CHR 0x0A")
    case True
    with Cons show ?thesis by auto
  next
    case False
    from splitLines_nonempty [of cs] obtain h r where hr: "splitLines cs = h # r"
      by (cases "splitLines cs") auto
    with Cons.prems False have "l = c # h \<or> l \<in> set r" by simp
    with Cons.IH [of h] Cons.IH [of l] hr False show ?thesis by auto
  qed
qed

lemma splitLines_joined:
  "concat (map (\<lambda>l. l @ [CHR 0x0A]) (splitLines t)) = t @ [CHR 0x0A]"
proof (induction t)
  case Nil
  then show ?case by simp
next
  case (Cons c cs)
  from splitLines_nonempty [of cs] obtain h r where hr: "splitLines cs = h # r"
    by (cases "splitLines cs") auto
  with Cons show ?case by (cases "c = CHR 0x0A") simp_all
qed

lemma splitLines_line:
  "CHR 0x0A \<notin> set l \<Longrightarrow> splitLines (l @ CHR 0x0A # rest) = l # splitLines rest"
  by (induction l) auto

lemma splitLines_last: "CHR 0x0A \<notin> set l \<Longrightarrow> splitLines l = [l]"
  by (induction l) auto

lemma last_dropWhile: "dropWhile P ys \<noteq> [] \<Longrightarrow> last (dropWhile P ys) = last ys"
  by (induction ys) (auto split: if_splits)

lemma trim_ends:
  assumes "trim s \<noteq> []"
  shows "\<not> isWhiteSpace (hd (trim s)) \<and> \<not> isWhiteSpace (last (trim s))"
proof -
  define d where "d = dropWhile isWhiteSpace s"
  define e where "e = dropWhile isWhiteSpace (rev d)"
  have t: "trim s = rev e" by (simp add: trim_def d_def e_def)
  with assms have e: "e \<noteq> []" by simp
  then have d: "d \<noteq> []" by (auto simp: e_def)
  from e have "\<not> isWhiteSpace (hd e)" unfolding e_def by (rule hd_dropWhile)
  then have l: "\<not> isWhiteSpace (last (trim s))" using e by (simp add: t last_rev)
  from e have "last e = last (rev d)" unfolding e_def by (rule last_dropWhile)
  then have "hd (trim s) = hd d" using e d by (simp add: t hd_rev last_rev)
  moreover from d have "\<not> isWhiteSpace (hd d)" unfolding d_def by (rule hd_dropWhile)
  ultimately show ?thesis using l by simp
qed

lemma trim_surround:
  assumes "\<forall>c\<in>set w1. isWhiteSpace c" and "\<forall>c\<in>set w2. isWhiteSpace c"
  shows "trim (w1 @ s @ w2) = trim s"
proof -
  have left: "dropWhile isWhiteSpace (w1 @ s @ w2) = dropWhile isWhiteSpace (s @ w2)"
    using assms(1) by (simp add: dropWhile_append2)
  show ?thesis
  proof (cases "\<forall>c\<in>set s. isWhiteSpace c")
    case True
    with assms(2) have "\<forall>c\<in>set (s @ w2). isWhiteSpace c" by auto
    then have a: "dropWhile isWhiteSpace (s @ w2) = []" by (simp only: dropWhile_eq_Nil_conv)
    from True have b: "dropWhile isWhiteSpace s = []" by (simp only: dropWhile_eq_Nil_conv)
    show ?thesis unfolding trim_def left a b ..
  next
    case False
    then obtain c where "c \<in> set s" "\<not> isWhiteSpace c" by blast
    then have "dropWhile isWhiteSpace (s @ w2) = dropWhile isWhiteSpace s @ w2"
      by (rule dropWhile_append1)
    moreover have "dropWhile isWhiteSpace (rev w2 @ ys) = dropWhile isWhiteSpace ys" for ys
    proof (rule dropWhile_append2)
      fix c assume "c \<in> set (rev w2)"
      with assms(2) show "isWhiteSpace c" by simp
    qed
    ultimately show ?thesis using left by (simp add: trim_def)
  qed
qed

lemma serialsProcessingResult_list:
  assumes "trim t \<noteq> []"
  shows "serialsProcessingResult L ModeList \<lparr> firstSerial = a, lastSerial = b, barcodes = t \<rparr> =
     (let lines = filter (\<lambda>line. line \<noteq> []) (map trim (splitLines t))
      in Some (if 1000 < length lines
               then \<lparr> serials = [], error = Some (errListTooLong (length lines)) \<rparr>
               else if \<not> distinct lines
                    then \<lparr> serials = [], error = Some errDuplicates \<rparr>
                    else \<lparr> serials = lines, error = None \<rparr>))"
proof -
  have "card (set xs) \<noteq> length xs \<longleftrightarrow> \<not> distinct xs" for xs :: "string list"
    using card_distinct [of xs] distinct_card [of xs] by blast
  then have eq: "(card (set xs) \<noteq> length xs) = (\<not> distinct xs)" for xs :: "string list" .
  show ?thesis unfolding serialsProcessingResult_def Let_def eq using assms
    by (simp del: set_filter set_map filter_map distinct_filter distinct_map)
qed


lemma trim_nonempty:
  assumes "\<exists>c\<in>set s. \<not> isWhiteSpace c"
  shows "trim s \<noteq> []"
proof -
  define d where "d = dropWhile isWhiteSpace s"
  from assms have d: "d \<noteq> []" by (simp add: d_def dropWhile_eq_Nil_conv)
  then have "\<not> isWhiteSpace (hd d)" unfolding d_def by (rule hd_dropWhile)
  with d have "\<exists>c\<in>set (rev d). \<not> isWhiteSpace c" by (cases d) auto
  then have "dropWhile isWhiteSpace (rev d) \<noteq> []" by (simp add: dropWhile_eq_Nil_conv)
  then show ?thesis by (simp add: trim_def d_def)
qed

lemma splitLines_repeated:
  "CHR 0x0A \<notin> set l \<Longrightarrow>
   splitLines (concat (replicate n (l @ [CHR 0x0A]))) = replicate n l @ [[]]"
  by (induction n) (simp_all add: splitLines_line)


lemma list_mode_repeated:
  assumes "CHR 0x0A \<notin> set l" and "trim l = l" and "l \<noteq> []" and "0 < n"
  shows "filter (\<lambda>line. line \<noteq> [])
           (map trim (splitLines (concat (replicate n (l @ [CHR 0x0A]))))) = replicate n l"
    and "trim (concat (replicate n (l @ [CHR 0x0A]))) \<noteq> []"
proof -
  have "trim [] = []" by (simp add: trim_def)
  with assms(1,2,3) show "filter (\<lambda>line. line \<noteq> [])
           (map trim (splitLines (concat (replicate n (l @ [CHR 0x0A]))))) = replicate n l"
    by (simp add: splitLines_repeated)
  from assms(2,3) trim_ends [of l] have "\<not> isWhiteSpace (hd l)" by simp
  moreover from assms(3,4) have "hd l \<in> set (concat (replicate n (l @ [CHR 0x0A])))"
    by (cases n) auto
  ultimately show "trim (concat (replicate n (l @ [CHR 0x0A]))) \<noteq> []"
    by (intro trim_nonempty) blast
qed


lemma not_distinct_replicate: "2 \<le> n \<Longrightarrow> \<not> distinct (replicate n x)"
proof -
  assume "2 \<le> n"
  then obtain m where "n = Suc (Suc m)" by (cases n; cases "n - 1") auto
  then show ?thesis by simp
qed

lemma trimmed_lines_ends:
  "\<forall>line\<in>set (filter (\<lambda>line. line \<noteq> []) (map trim (splitLines text))).
     line \<noteq> [] \<and> \<not> isWhiteSpace (hd line) \<and> \<not> isWhiteSpace (last line)"
proof
  fix line
  assume "line \<in> set (filter (\<lambda>line. line \<noteq> []) (map trim (splitLines text)))"
  then obtain s where "line = trim s" and "trim s \<noteq> []" by auto
  with trim_ends [of s] show
    "line \<noteq> [] \<and> \<not> isWhiteSpace (hd line) \<and> \<not> isWhiteSpace (last line)" by simp
qed

lemma errListTooLong_text:
  "errListTooLong n =
     ''List is too long. A maximum of 1000 items can be added at once, but you have provided '' @
     decimal n @ ''.''"
  by (simp add: errListTooLong_def)

section \<open>The claims\<close>

text \<open>
  In the witnesses the array capacity is \<open>4294967295\<close>, that is \<open>2 ^ 32 - 1\<close>, the largest
  length that the language gives an array.
\<close>

subsection \<open>C1\<close>



subsection \<open>C2\<close>

text \<open>
  C2: for every string with at least one decimal digit, \<^verbatim>\<open>parseSerial\<close> returns parts whose
  concatenation is the string; the numeric part is non-empty and all digits, no digit
  stands immediately before it and none occurs after it. \<^verbatim>\<open>"A1B23"\<close> splits into
  \<^verbatim>\<open>"A1B"\<close>, \<^verbatim>\<open>"23"\<close> and the empty suffix.
\<close>

theorem parseSerial_rightmost_run:
  "parseSerial ''A1B23'' = Some \<lparr> prefix = ''A1B'', numStr = ''23'', suffix = '''' \<rparr> \<and>
   ((\<exists>c\<in>set serial. isDigit c) \<longrightarrow>
      (\<exists>p. parseSerial serial = Some p \<and>
           prefix p @ numStr p @ suffix p = serial \<and>
           numStr p \<noteq> [] \<and> (\<forall>c\<in>set (numStr p). isDigit c) \<and>
           (prefix p = [] \<or> \<not> isDigit (last (prefix p))) \<and>
           (\<forall>c\<in>set (suffix p). \<not> isDigit c)))"
proof (intro conjI impI)
  show "parseSerial ''A1B23'' = Some \<lparr> prefix = ''A1B'', numStr = ''23'', suffix = '''' \<rparr>"
    by (simp add: parseSerial_def isDigit_def substring_def substringFrom_def)
next
  assume "\<exists>c\<in>set serial. isDigit c"
  then have "parseSerial serial \<noteq> None" by (simp only: parseSerial_None) blast
  then obtain p where p: "parseSerial serial = Some p" by auto
  from parseSerial_Some [OF p] p show "\<exists>p. parseSerial serial = Some p \<and>
           prefix p @ numStr p @ suffix p = serial \<and>
           numStr p \<noteq> [] \<and> (\<forall>c\<in>set (numStr p). isDigit c) \<and>
           (prefix p = [] \<or> \<not> isDigit (last (prefix p))) \<and>
           (\<forall>c\<in>set (suffix p). \<not> isDigit c)" by blast
qed

theorem parseSerial_rightmost_run_witness:
  "(\<exists>c\<in>set ''ITEM-01-A99x''. isDigit c) \<and>
   parseSerial ''ITEM-01-A99x'' =
     Some \<lparr> prefix = ''ITEM-01-A'', numStr = ''99'', suffix = ''x'' \<rparr>"
proof -
  have h: "\<exists>c\<in>set ''ITEM-01-A99x''. isDigit c" by (simp add: isDigit_def)
  with parseSerial_rightmost_run [of "''ITEM-01-A99x''"]
  obtain p where p: "parseSerial ''ITEM-01-A99x'' = Some p"
    and cat: "prefix p @ numStr p @ suffix p = ''ITEM-01-A99x''"
    and ne: "numStr p \<noteq> []" and ds: "\<forall>c\<in>set (numStr p). isDigit c"
    and pre: "prefix p = [] \<or> \<not> isDigit (last (prefix p))"
    and suf: "\<forall>c\<in>set (suffix p). \<not> isDigit c" by blast
  have "''ITEM-01-A'' @ ''99'' @ ''x'' = prefix p @ numStr p @ suffix p" using cat by simp
  then have "''ITEM-01-A'' = prefix p \<and> ''99'' = numStr p \<and> ''x'' = suffix p"
    using ne ds pre suf by (intro rightmost_run_unique) (simp_all add: isDigit_def)
  with p h show ?thesis by (cases p) simp
qed

subsection \<open>C3\<close>

text \<open>
  C3: in every returned list, element \<open>i\<close> carries the numeral of \<open>startNum + i\<close> with
  zeros put in front up to \<open>padWidth\<close>, the larger of the lengths of the two numeric
  parts: the rendered number has at least \<open>padWidth\<close> characters, and a numeral that
  already has \<open>padWidth\<close> characters or more is rendered as it is, never cut.
  \<^verbatim>\<open>("IT-9", "IT-11")\<close> gives \<^verbatim>\<open>IT-09, IT-10, IT-11\<close> and \<^verbatim>\<open>("IT-001", "IT-003")\<close> gives
  \<^verbatim>\<open>IT-001, IT-002, IT-003\<close>, in an array that can hold three elements.
\<close>

theorem expandRange_padding:
  "(3 \<le> maxLength \<longrightarrow>
      expandRange maxLength ''IT-9'' ''IT-11'' = Some (Inr [''IT-09'', ''IT-10'', ''IT-11'']) \<and>
      expandRange maxLength ''IT-001'' ''IT-003'' =
        Some (Inr [''IT-001'', ''IT-002'', ''IT-003''])) \<and>
   (expandRange maxLength start end = Some (Inr xs) \<longrightarrow>
     (\<exists>sp ep. parseSerial start = Some sp \<and> parseSerial end = Some ep \<and>
        (\<forall>i<length xs.
           let n = digitsValue (numStr sp) + i;
               padWidth = max (length (numStr sp)) (length (numStr ep));
               rendered = replicate (padWidth - length (decimal n)) (CHR ''0'') @ decimal n
           in xs ! i = prefix sp @ rendered @ suffix sp \<and>
              padWidth \<le> length rendered \<and>
              (padWidth \<le> length (decimal n) \<longrightarrow> rendered = decimal n))))"
proof (intro conjI impI)
  assume c: "3 \<le> maxLength"
  from c show "expandRange maxLength ''IT-9'' ''IT-11'' =
      Some (Inr [''IT-09'', ''IT-10'', ''IT-11''])"
    by (rule expandRange_IT_9_11)
  from c show "expandRange maxLength ''IT-001'' ''IT-003'' =
      Some (Inr [''IT-001'', ''IT-002'', ''IT-003''])"
    by (rule expandRange_IT_001_003)
next
  assume "expandRange maxLength start end = Some (Inr xs)"
  from expandRange_elements [OF this] obtain sp ep where
    sp: "parseSerial start = Some sp" and ep: "parseSerial end = Some ep"
    and nth: "\<forall>i<length xs.
           xs ! i = prefix sp @
             padStart (max (length (numStr sp)) (length (numStr ep)))
               (decimal (digitsValue (numStr sp) + i)) @ suffix sp"
    by blast
  have "\<forall>i<length xs.
           let n = digitsValue (numStr sp) + i;
               padWidth = max (length (numStr sp)) (length (numStr ep));
               rendered = replicate (padWidth - length (decimal n)) (CHR ''0'') @ decimal n
           in xs ! i = prefix sp @ rendered @ suffix sp \<and>
              padWidth \<le> length rendered \<and>
              (padWidth \<le> length (decimal n) \<longrightarrow> rendered = decimal n)"
    unfolding Let_def using nth padStart_props by metis
  with sp ep show "\<exists>sp ep. parseSerial start = Some sp \<and> parseSerial end = Some ep \<and>
        (\<forall>i<length xs.
           let n = digitsValue (numStr sp) + i;
               padWidth = max (length (numStr sp)) (length (numStr ep));
               rendered = replicate (padWidth - length (decimal n)) (CHR ''0'') @ decimal n
           in xs ! i = prefix sp @ rendered @ suffix sp \<and>
              padWidth \<le> length rendered \<and>
              (padWidth \<le> length (decimal n) \<longrightarrow> rendered = decimal n))"
    by blast
qed

theorem expandRange_padding_witness:
  "expandRange 4294967295 ''IT-9'' ''IT-11'' = Some (Inr [''IT-09'', ''IT-10'', ''IT-11'']) \<and>
   expandRange 4294967295 ''IT-001'' ''IT-003'' = Some (Inr [''IT-001'', ''IT-002'', ''IT-003'']) \<and>
   (\<exists>sp ep. parseSerial ''IT-001'' = Some sp \<and> parseSerial ''IT-003'' = Some ep \<and>
        (\<forall>i<length [''IT-001'', ''IT-002'', ''IT-003''].
           let n = digitsValue (numStr sp) + i;
               padWidth = max (length (numStr sp)) (length (numStr ep));
               rendered = replicate (padWidth - length (decimal n)) (CHR ''0'') @ decimal n
           in [''IT-001'', ''IT-002'', ''IT-003''] ! i = prefix sp @ rendered @ suffix sp \<and>
              padWidth \<le> length rendered \<and>
              (padWidth \<le> length (decimal n) \<longrightarrow> rendered = decimal n)))"
proof -
  have c: "(3::nat) \<le> 4294967295" by simp
  note t = expandRange_padding
    [of 4294967295 "''IT-001''" "''IT-003''" "[''IT-001'', ''IT-002'', ''IT-003'']"]
  note ex = t [THEN conjunct1, THEN mp, OF c]
  note h9 = ex [THEN conjunct1] and h1 = ex [THEN conjunct2]
  note el = t [THEN conjunct2, THEN mp, OF h1]
  show ?thesis by (rule conjI [OF h9 conjI [OF h1 el]])
qed

subsection \<open>C4\<close>

text \<open>
  C4 fails in the code at the range from \<^verbatim>\<open>"1"\<close> to \<^verbatim>\<open>"9007199254740992"\<close>. The endpoints
  parse, have the same (empty) text parts and are in order, and the range has more than
  1000 numbers. But \<^verbatim>\<open>expandRange\<close> builds the whole list before a caller looks at its
  length, and no array holds this one: the call throws, whatever the capacity, and so do
  the range mode and the scan intake, which do not catch it. In general, for endpoints in
  order below \<open>2 ^ 53\<close> that span more than 1000 numbers, the range mode returns the error
  with the cap and the count when the array can hold that many elements, and throws when
  it cannot. The two examples of the claim are of the first kind: in an array that can
  hold the list, \<^verbatim>\<open>("1", "1000")\<close> gives its 1000 serials and \<^verbatim>\<open>("1", "1001")\<close> the error
  with the count 1001.
\<close>

theorem range_cap_throws:
  "parseSerial (trim ''1'') = Some \<lparr> prefix = '''', numStr = ''1'', suffix = '''' \<rparr> \<and>
   parseSerial (trim ''9007199254740992'') =
     Some \<lparr> prefix = '''', numStr = ''9007199254740992'', suffix = '''' \<rparr> \<and>
   digitsValue ''1'' \<le> digitsValue ''9007199254740992'' \<and>
   1000 < digitsValue ''9007199254740992'' - digitsValue ''1'' + 1 \<and>
   expandRange maxLength ''1'' ''9007199254740992'' = None \<and>
   serialsProcessingResult maxLength ModeRange
       \<lparr> firstSerial = ''1'', lastSerial = ''9007199254740992'', barcodes = t \<rparr> = None \<and>
   scannedSerialsProcessingResult maxLength [\<lparr> typeName = ''U6'', category = ''Meters'' \<rparr>]
       \<lparr> scannedName = ''U6'', scannedFirstSerial = Some ''1'',
         scannedLastSerial = Some ''9007199254740992'' \<rparr> = None \<and>
   (1000 \<le> maxLength \<longrightarrow>
      serialsProcessingResult maxLength ModeRange
          \<lparr> firstSerial = ''1'', lastSerial = ''1000'', barcodes = t \<rparr> =
        Some \<lparr> serials = map (\<lambda>n. padStart 4 (decimal n)) [1..<1001], error = None \<rparr>) \<and>
   length (map (\<lambda>n. padStart 4 (decimal n)) [1..<1001]) = 1000 \<and>
   (1001 \<le> maxLength \<longrightarrow>
      serialsProcessingResult maxLength ModeRange
          \<lparr> firstSerial = ''1'', lastSerial = ''1001'', barcodes = t \<rparr> =
        Some \<lparr> serials = [],
               error = Some ''Range is too large. A maximum of 1000 items can be added at once, but this range contains 1001.'' \<rparr>) \<and>
   (parseSerial (trim a) = Some sp \<and> parseSerial (trim b) = Some ep \<and>
    prefix sp = prefix ep \<and> suffix sp = suffix ep \<and>
    digitsValue (numStr sp) \<le> digitsValue (numStr ep) \<and> digitsValue (numStr ep) < 2 ^ 53 \<and>
    1000 < digitsValue (numStr ep) - digitsValue (numStr sp) + 1 \<longrightarrow>
      serialsProcessingResult maxLength ModeRange
          \<lparr> firstSerial = a, lastSerial = b, barcodes = t \<rparr> =
        (if digitsValue (numStr ep) - digitsValue (numStr sp) + 1 \<le> maxLength
         then Some \<lparr> serials = [],
                     error = Some (''Range is too large. A maximum of 1000 items can be added at once, but this range contains '' @
                                   decimal (digitsValue (numStr ep) - digitsValue (numStr sp) + 1) @
                                   ''.'') \<rparr>
         else None))"
proof (intro conjI impI)
  show "parseSerial (trim ''1'') = Some \<lparr> prefix = '''', numStr = ''1'', suffix = '''' \<rparr>"
    by (simp only: trim_plain parseSerial_simps)
  show "parseSerial (trim ''9007199254740992'') =
     Some \<lparr> prefix = '''', numStr = ''9007199254740992'', suffix = '''' \<rparr>"
    by (simp only: trim_plain parseSerial_large)
  show "digitsValue ''1'' \<le> digitsValue ''9007199254740992''"
    by (simp add: digitsValue_simps digitsValue_large)
  show "1000 < digitsValue ''9007199254740992'' - digitsValue ''1'' + 1"
    by (simp add: digitsValue_simps digitsValue_large)
  show "expandRange maxLength ''1'' ''9007199254740992'' = None"
    by (rule expandRange_1_2_53)
  have thrown: "expandRange maxLength (trim ''1'') (trim ''9007199254740992'') = None"
    by (simp only: trim_plain expandRange_1_2_53)
  have ne: "trim ''1'' \<noteq> []" "trim ''9007199254740992'' \<noteq> []"
    by (simp_all only: trim_plain) simp_all
  show "serialsProcessingResult maxLength ModeRange
       \<lparr> firstSerial = ''1'', lastSerial = ''9007199254740992'', barcodes = t \<rparr> = None"
    by (rule serialsProcessingResult_throws [OF thrown ne])
  show "scannedSerialsProcessingResult maxLength [\<lparr> typeName = ''U6'', category = ''Meters'' \<rparr>]
       \<lparr> scannedName = ''U6'', scannedFirstSerial = Some ''1'',
         scannedLastSerial = Some ''9007199254740992'' \<rparr> = None"
    by (rule scannedSerialsProcessingResult_throws [OF thrown ne]) (simp add: METERS_def)
  show "length (map (\<lambda>n. padStart 4 (decimal n)) [1..<1001]) = 1000" by simp
next
  assume "1000 \<le> maxLength"
  then have "expandRange maxLength (trim ''1'') (trim ''1000'') =
      Some (Inr (map (\<lambda>n. padStart 4 (decimal n)) [1..<1001]))"
    by (simp only: trim_plain expandRange_1_1000)
  from serialsProcessingResult_range [OF this, of t]
  show "serialsProcessingResult maxLength ModeRange
       \<lparr> firstSerial = ''1'', lastSerial = ''1000'', barcodes = t \<rparr> =
     Some \<lparr> serials = map (\<lambda>n. padStart 4 (decimal n)) [1..<1001], error = None \<rparr>"
    by (simp del: upt_Suc)
next
  assume "1001 \<le> maxLength"
  then have "expandRange maxLength (trim ''1'') (trim ''1001'') =
      Some (Inr (map (\<lambda>n. padStart 4 (decimal n)) [1..<1002]))"
    by (simp only: trim_plain expandRange_1_1001)
  from serialsProcessingResult_range [OF this, of t]
  show "serialsProcessingResult maxLength ModeRange
       \<lparr> firstSerial = ''1'', lastSerial = ''1001'', barcodes = t \<rparr> =
     Some \<lparr> serials = [],
            error = Some ''Range is too large. A maximum of 1000 items can be added at once, but this range contains 1001.'' \<rparr>"
    by (simp add: errRangeTooLarge_def decimal_simps del: upt_Suc)
next
  assume "parseSerial (trim a) = Some sp \<and> parseSerial (trim b) = Some ep \<and>
    prefix sp = prefix ep \<and> suffix sp = suffix ep \<and>
    digitsValue (numStr sp) \<le> digitsValue (numStr ep) \<and> digitsValue (numStr ep) < 2 ^ 53 \<and>
    1000 < digitsValue (numStr ep) - digitsValue (numStr sp) + 1"
  then have "serialsProcessingResult maxLength ModeRange
       \<lparr> firstSerial = a, lastSerial = b, barcodes = t \<rparr> =
     (if digitsValue (numStr ep) - digitsValue (numStr sp) + 1 \<le> maxLength
      then Some \<lparr> serials = [],
                  error = Some (errRangeTooLarge
                                  (digitsValue (numStr ep) - digitsValue (numStr sp) + 1)) \<rparr>
      else None)"
    by (intro serialsProcessingResult_small) simp_all
  then show "serialsProcessingResult maxLength ModeRange
          \<lparr> firstSerial = a, lastSerial = b, barcodes = t \<rparr> =
        (if digitsValue (numStr ep) - digitsValue (numStr sp) + 1 \<le> maxLength
         then Some \<lparr> serials = [],
                     error = Some (''Range is too large. A maximum of 1000 items can be added at once, but this range contains '' @
                                   decimal (digitsValue (numStr ep) - digitsValue (numStr sp) + 1) @
                                   ''.'') \<rparr>
         else None)"
    by (simp only: errRangeTooLarge_def)
qed

theorem range_cap_throws_witness:
  "parseSerial (trim ''1'') = Some \<lparr> prefix = '''', numStr = ''1'', suffix = '''' \<rparr> \<and>
   parseSerial (trim ''5000000000'') =
     Some \<lparr> prefix = '''', numStr = ''5000000000'', suffix = '''' \<rparr> \<and>
   digitsValue ''5000000000'' - digitsValue ''1'' + 1 = 5000000000 \<and>
   serialsProcessingResult 4294967295 ModeRange
       \<lparr> firstSerial = ''1'', lastSerial = ''5000000000'', barcodes = '''' \<rparr> = None \<and>
   serialsProcessingResult 4294967295 ModeRange
       \<lparr> firstSerial = ''1'', lastSerial = ''9007199254740992'', barcodes = '''' \<rparr> = None"
proof -
  have a: "parseSerial (trim ''1'') = Some \<lparr> prefix = '''', numStr = ''1'', suffix = '''' \<rparr>"
    by (simp only: trim_plain parseSerial_simps)
  have t: "trim ''5000000000'' = ''5000000000''" by (simp add: trim_def isWhiteSpace_def)
  have b: "parseSerial (trim ''5000000000'') =
     Some \<lparr> prefix = '''', numStr = ''5000000000'', suffix = '''' \<rparr>"
    unfolding t by (simp add: parseSerial_def isDigit_def substring_def substringFrom_def)
  have v: "digitsValue ''5000000000'' = 5000000000" "digitsValue ''1'' = 1"
    by (simp_all add: digitsValue_def digitVal_def)
  note w = range_cap_throws
    [of 4294967295 "''''" "''1''" "\<lparr> prefix = '''', numStr = ''1'', suffix = '''' \<rparr>"
        "''5000000000''" "\<lparr> prefix = '''', numStr = ''5000000000'', suffix = '''' \<rparr>"]
  note gen = w [THEN conjunct2, THEN conjunct2, THEN conjunct2, THEN conjunct2, THEN conjunct2,
    THEN conjunct2, THEN conjunct2, THEN conjunct2, THEN conjunct2, THEN conjunct2]
  from gen a b v have r: "serialsProcessingResult 4294967295 ModeRange
       \<lparr> firstSerial = ''1'', lastSerial = ''5000000000'', barcodes = '''' \<rparr> = None"
    by simp
  note s = w [THEN conjunct2, THEN conjunct2, THEN conjunct2, THEN conjunct2, THEN conjunct2,
    THEN conjunct1]
  from a b v r s show ?thesis by simp
qed

subsection \<open>C5\<close>

text \<open>
  C5: when an endpoint has no decimal digit (the empty string included), \<^verbatim>\<open>expandRange\<close>
  returns the error that a number part is required, whatever the other endpoint is: the
  check comes before the comparison of the text parts, the order check and the loop.
\<close>

theorem expandRange_no_digits:
  "(\<forall>c\<in>set start. \<not> isDigit c) \<or> (\<forall>c\<in>set end. \<not> isDigit c) \<Longrightarrow>
   expandRange maxLength start end =
     Some (Inl ''Invalid format. Serials must contain a number part for range expansion.'')"
  using expandRange_invalid [of start "end" maxLength]
  by (simp add: parseSerial_None errInvalidFormat_def)

theorem expandRange_no_digits_witness:
  "expandRange 4294967295 ''ABC'' ''XYZ'' =
     Some (Inl ''Invalid format. Serials must contain a number part for range expansion.'') \<and>
   expandRange 4294967295 '''' ''X5'' =
     Some (Inl ''Invalid format. Serials must contain a number part for range expansion.'') \<and>
   expandRange 4294967295 ''B9'' ''A-'' =
     Some (Inl ''Invalid format. Serials must contain a number part for range expansion.'')"
  using expandRange_no_digits [of "''ABC''" "''XYZ''" 4294967295]
    expandRange_no_digits [of "''''" "''X5''" 4294967295]
    expandRange_no_digits [of "''B9''" "''A-''" 4294967295]
  by (simp add: isDigit_def)

subsection \<open>C6\<close>

text \<open>
  C6: when both endpoints parse and their prefixes or their suffixes differ (as strings,
  so case matters), \<^verbatim>\<open>expandRange\<close> returns the error that the text parts do not match,
  whatever the numbers are: nothing is compared or generated. \<^verbatim>\<open>"A-1-Z"\<close> and \<^verbatim>\<open>"B-2-Z"\<close>
  have the prefixes \<^verbatim>\<open>"A-"\<close> and \<^verbatim>\<open>"B-"\<close>.
\<close>

theorem expandRange_text_parts_differ:
  "(parseSerial start = Some sp \<and> parseSerial end = Some ep \<and>
    (prefix sp \<noteq> prefix ep \<or> suffix sp \<noteq> suffix ep) \<longrightarrow>
    expandRange maxLength start end =
      Some (Inl ''The text parts (prefix/suffix) of the serial numbers do not match.'')) \<and>
   map_option prefix (parseSerial ''A-1-Z'') = Some ''A-'' \<and>
   map_option prefix (parseSerial ''B-2-Z'') = Some ''B-'' \<and>
   expandRange maxLength ''A-1-Z'' ''B-2-Z'' =
     Some (Inl ''The text parts (prefix/suffix) of the serial numbers do not match.'')"
proof -
  have a: "parseSerial ''A-1-Z'' = Some \<lparr> prefix = ''A-'', numStr = ''1'', suffix = ''-Z'' \<rparr>"
    by (simp add: parseSerial_def isDigit_def substring_def substringFrom_def)
  have b: "parseSerial ''B-2-Z'' = Some \<lparr> prefix = ''B-'', numStr = ''2'', suffix = ''-Z'' \<rparr>"
    by (simp add: parseSerial_def isDigit_def substring_def substringFrom_def)
  have "expandRange maxLength ''A-1-Z'' ''B-2-Z'' = Some (Inl errTextParts)"
    by (rule expandRange_mismatch [OF a b]) simp
  then show ?thesis
    using a b by (auto simp: errTextParts_def [symmetric] intro: expandRange_mismatch)
qed

theorem expandRange_text_parts_differ_witness:
  "parseSerial ''a9'' = Some \<lparr> prefix = ''a'', numStr = ''9'', suffix = '''' \<rparr> \<and>
   parseSerial ''A2'' = Some \<lparr> prefix = ''A'', numStr = ''2'', suffix = '''' \<rparr> \<and>
   expandRange 4294967295 ''a9'' ''A2'' =
     Some (Inl ''The text parts (prefix/suffix) of the serial numbers do not match.'')"
proof -
  have a: "parseSerial ''a9'' = Some \<lparr> prefix = ''a'', numStr = ''9'', suffix = '''' \<rparr>"
    by (simp add: parseSerial_def isDigit_def substring_def substringFrom_def)
  have b: "parseSerial ''A2'' = Some \<lparr> prefix = ''A'', numStr = ''2'', suffix = '''' \<rparr>"
    by (simp add: parseSerial_def isDigit_def substring_def substringFrom_def)
  from expandRange_text_parts_differ
    [of "''a9''" "\<lparr> prefix = ''a'', numStr = ''9'', suffix = '''' \<rparr>"
        "''A2''" "\<lparr> prefix = ''A'', numStr = ''2'', suffix = '''' \<rparr>" 4294967295] a b
  show ?thesis by simp
qed

subsection \<open>C7\<close>

text \<open>
  C7 fails in the code at the range from \<^verbatim>\<open>"X9007199254740993"\<close> to
  \<^verbatim>\<open>"X9007199254740992"\<close>. The endpoints parse and have the same text parts, and the
  start run is the greater integer. But \<^verbatim>\<open>parseInt\<close> gives the same Number for both runs,
  so the order check passes and the loop is entered; there \<^verbatim>\<open>i++\<close> leaves \<open>i\<close> as it is,
  the array fills up and the call throws, whatever the capacity, instead of returning
  the start-greater error. In general, for endpoints with the same text parts whose start
  run is the greater integer, \<^verbatim>\<open>expandRange\<close> returns the start-greater error when the
  Number of the start run is greater than the Number of the end run, and throws when it
  is not.
\<close>

theorem expandRange_reversed_throws:
  "parseSerial ''X9007199254740993'' =
     Some \<lparr> prefix = ''X'', numStr = ''9007199254740993'', suffix = '''' \<rparr> \<and>
   parseSerial ''X9007199254740992'' =
     Some \<lparr> prefix = ''X'', numStr = ''9007199254740992'', suffix = '''' \<rparr> \<and>
   digitsValue ''9007199254740992'' < digitsValue ''9007199254740993'' \<and>
   parseInt10 ''9007199254740993'' = Finite 9007199254740992 \<and>
   parseInt10 ''9007199254740992'' = Finite 9007199254740992 \<and>
   expandRange maxLength ''X9007199254740993'' ''X9007199254740992'' = None \<and>
   (parseSerial start = Some sp \<and> parseSerial end = Some ep \<and>
    prefix sp = prefix ep \<and> suffix sp = suffix ep \<and>
    digitsValue (numStr ep) < digitsValue (numStr sp) \<longrightarrow>
      expandRange maxLength start end =
        (if numGt (parseInt10 (numStr sp)) (parseInt10 (numStr ep))
         then Some (Inl ''The start number cannot be greater than the end number.'')
         else None))"
proof (intro conjI impI)
  show "parseSerial ''X9007199254740993'' =
     Some \<lparr> prefix = ''X'', numStr = ''9007199254740993'', suffix = '''' \<rparr>"
    by (rule parseSerial_large)
  show "parseSerial ''X9007199254740992'' =
     Some \<lparr> prefix = ''X'', numStr = ''9007199254740992'', suffix = '''' \<rparr>"
    by (rule parseSerial_large)
  show "digitsValue ''9007199254740992'' < digitsValue ''9007199254740993''"
    by (simp add: digitsValue_large)
  show "parseInt10 ''9007199254740993'' = Finite 9007199254740992"
    using parseInt10_parseSerial [OF parseSerial_large(1)]
    by (simp add: digitsValue_large roundNumber_2_53_succ)
  show "parseInt10 ''9007199254740992'' = Finite 9007199254740992"
    using parseInt10_parseSerial [OF parseSerial_large(2)]
    by (simp add: digitsValue_large roundNumber_2_53)
  show "expandRange maxLength ''X9007199254740993'' ''X9007199254740992'' = None"
    by (rule expandRange_X_2_53)
next
  assume "parseSerial start = Some sp \<and> parseSerial end = Some ep \<and>
    prefix sp = prefix ep \<and> suffix sp = suffix ep \<and>
    digitsValue (numStr ep) < digitsValue (numStr sp)"
  then have "expandRange maxLength start end =
     (if numGt (parseInt10 (numStr sp)) (parseInt10 (numStr ep))
      then Some (Inl errStartGreater)
      else None)"
    by (intro expandRange_descending) simp_all
  then show "expandRange maxLength start end =
        (if numGt (parseInt10 (numStr sp)) (parseInt10 (numStr ep))
         then Some (Inl ''The start number cannot be greater than the end number.'')
         else None)"
    by (simp only: errStartGreater_def)
qed

theorem expandRange_reversed_throws_witness:
  "parseSerial ''X9007199254740993'' =
     Some \<lparr> prefix = ''X'', numStr = ''9007199254740993'', suffix = '''' \<rparr> \<and>
   parseSerial ''X9007199254740992'' =
     Some \<lparr> prefix = ''X'', numStr = ''9007199254740992'', suffix = '''' \<rparr> \<and>
   digitsValue ''9007199254740992'' < digitsValue ''9007199254740993'' \<and>
   \<not> numGt (parseInt10 ''9007199254740993'') (parseInt10 ''9007199254740992'') \<and>
   expandRange 4294967295 ''X9007199254740993'' ''X9007199254740992'' = None \<and>
   parseSerial ''X10'' = Some \<lparr> prefix = ''X'', numStr = ''10'', suffix = '''' \<rparr> \<and>
   parseSerial ''X5'' = Some \<lparr> prefix = ''X'', numStr = ''5'', suffix = '''' \<rparr> \<and>
   digitsValue ''5'' < digitsValue ''10'' \<and>
   numGt (parseInt10 ''10'') (parseInt10 ''5'') \<and>
   expandRange 4294967295 ''X10'' ''X5'' =
     Some (Inl ''The start number cannot be greater than the end number.'')"
proof -
  note w = expandRange_reversed_throws
    [of 4294967295 "''X9007199254740993''"
        "\<lparr> prefix = ''X'', numStr = ''9007199254740993'', suffix = '''' \<rparr>"
        "''X9007199254740992''"
        "\<lparr> prefix = ''X'', numStr = ''9007199254740992'', suffix = '''' \<rparr>"]
  note p1 = w [THEN conjunct1]
  note p2 = w [THEN conjunct2, THEN conjunct1]
  note p3 = w [THEN conjunct2, THEN conjunct2, THEN conjunct1]
  note n1 = w [THEN conjunct2, THEN conjunct2, THEN conjunct2, THEN conjunct1]
  note n2 = w [THEN conjunct2, THEN conjunct2, THEN conjunct2, THEN conjunct2, THEN conjunct1]
  note gen = w [THEN conjunct2, THEN conjunct2, THEN conjunct2, THEN conjunct2, THEN conjunct2,
    THEN conjunct2]
  note p = p1 p2 p3
  from n1 n2 have g: "\<not> numGt (parseInt10 ''9007199254740993'') (parseInt10 ''9007199254740992'')"
    by simp
  from gen p1 p2 p3 n1 n2
  have r: "expandRange 4294967295 ''X9007199254740993'' ''X9007199254740992'' = None"
    by simp
  have a: "parseSerial ''X10'' = Some \<lparr> prefix = ''X'', numStr = ''10'', suffix = '''' \<rparr>"
    by (simp add: parseSerial_def isDigit_def substring_def substringFrom_def)
  have b: "parseSerial ''X5'' = Some \<lparr> prefix = ''X'', numStr = ''5'', suffix = '''' \<rparr>"
    by (rule parseSerial_simps)
  have v: "digitsValue ''10'' = 10" "digitsValue ''5'' = 5"
    by (simp_all add: digitsValue_def digitVal_def)
  have d: "digitsValue ''5'' < digitsValue ''10''" by (simp add: v)
  have h: "numGt (parseInt10 ''10'') (parseInt10 ''5'')"
    by (simp add: parseInt10_def isDigit_def v roundNumber_small)
  from expandRange_reversed_throws
    [of 4294967295 "''X10''" "\<lparr> prefix = ''X'', numStr = ''10'', suffix = '''' \<rparr>"
        "''X5''" "\<lparr> prefix = ''X'', numStr = ''5'', suffix = '''' \<rparr>"] a b d h
  have e: "expandRange 4294967295 ''X10'' ''X5'' =
     Some (Inl ''The start number cannot be greater than the end number.'')"
    by simp
  from p g r a b d h e show ?thesis by (intro conjI)
qed

subsection \<open>C8\<close>

text \<open>
  C8, as stated, fails: the runs \<^verbatim>\<open>9007199254740995\<close> and \<^verbatim>\<open>9007199254740993\<close> are not
  doubles (\<^verbatim>\<open>parseInt\<close> gives 9007199254740996 and 9007199254740992), yet
  \<^verbatim>\<open>expandRange\<close> does not reject these serials for their number part: it compares the
  rounded Numbers and returns the start-greater error.
\<close>

theorem expandRange_inexact_counterexample:
  "parseSerial ''9007199254740995'' =
     Some \<lparr> prefix = '''', numStr = ''9007199254740995'', suffix = '''' \<rparr> \<and>
   parseSerial ''9007199254740993'' =
     Some \<lparr> prefix = '''', numStr = ''9007199254740993'', suffix = '''' \<rparr> \<and>
   digitsValue ''9007199254740995'' = 9007199254740995 \<and>
   digitsValue ''9007199254740993'' = 9007199254740993 \<and>
   parseInt10 ''9007199254740995'' = Finite 9007199254740996 \<and>
   parseInt10 ''9007199254740993'' = Finite 9007199254740992 \<and>
   (\<forall>maxLength.
      expandRange maxLength ''9007199254740995'' ''9007199254740993'' =
        Some (Inl ''The start number cannot be greater than the end number.'') \<and>
      expandRange maxLength ''9007199254740995'' ''9007199254740993'' \<noteq>
        Some (Inl ''Invalid format. Serials must contain a number part for range expansion.''))"
proof -
  have a: "parseInt10 ''9007199254740995'' = Finite 9007199254740996"
    using parseInt10_parseSerial [OF parseSerial_large(5)]
    by (simp add: digitsValue_large roundNumber_2_53_3)
  have b: "parseInt10 ''9007199254740993'' = Finite 9007199254740992"
    using parseInt10_parseSerial [OF parseSerial_large(3)]
    by (simp add: digitsValue_large roundNumber_2_53_succ)
  have c: "expandRange maxLength ''9007199254740995'' ''9007199254740993'' =
        Some (Inl ''The start number cannot be greater than the end number.'')" for maxLength
    using expandRange_2_53_descending [of maxLength] by (simp only: errStartGreater_def)
  have d: "expandRange maxLength ''9007199254740995'' ''9007199254740993'' \<noteq>
        Some (Inl ''Invalid format. Serials must contain a number part for range expansion.'')"
    for maxLength
    using expandRange_2_53_descending [of maxLength] errors_distinct
    by (simp add: errInvalidFormat_def [symmetric])
  from a b c d show ?thesis
    by (simp only: parseSerial_large digitsValue_large) simp
qed

text \<open>
  C8, amended: \<^verbatim>\<open>expandRange\<close> has no guard for a run whose value is not a double. It
  returns the number-part error exactly when an endpoint has no decimal digit, however
  long the runs are. The runs of endpoints that parse are read by \<^verbatim>\<open>parseInt\<close>, which gives
  the double nearest to the value of the run; with these Numbers, rounded or not, the
  call returns the text-parts error if prefixes or suffixes differ, and the start-greater
  error if they agree and the Number of the start run exceeds the Number of the end run.
\<close>

theorem expandRange_no_exactness_guard:
  "(expandRange maxLength start end =
      Some (Inl ''Invalid format. Serials must contain a number part for range expansion.'') \<longleftrightarrow>
    (\<forall>c\<in>set start. \<not> isDigit c) \<or> (\<forall>c\<in>set end. \<not> isDigit c)) \<and>
   (parseSerial start = Some sp \<and> parseSerial end = Some ep \<longrightarrow>
      parseInt10 (numStr sp) = roundNumber (digitsValue (numStr sp)) \<and>
      parseInt10 (numStr ep) = roundNumber (digitsValue (numStr ep)) \<and>
      (prefix sp \<noteq> prefix ep \<or> suffix sp \<noteq> suffix ep \<longrightarrow>
         expandRange maxLength start end =
           Some (Inl ''The text parts (prefix/suffix) of the serial numbers do not match.'')) \<and>
      (prefix sp = prefix ep \<and> suffix sp = suffix ep \<and>
       numGt (parseInt10 (numStr sp)) (parseInt10 (numStr ep)) \<longrightarrow>
         expandRange maxLength start end =
           Some (Inl ''The start number cannot be greater than the end number.'')))"
proof (intro conjI impI)
  show "expandRange maxLength start end =
      Some (Inl ''Invalid format. Serials must contain a number part for range expansion.'') \<longleftrightarrow>
    (\<forall>c\<in>set start. \<not> isDigit c) \<or> (\<forall>c\<in>set end. \<not> isDigit c)"
    using expandRange_invalid_iff [of maxLength start "end"]
    by (simp add: parseSerial_None errInvalidFormat_def)
next
  assume h: "parseSerial start = Some sp \<and> parseSerial end = Some ep"
  then have sp: "parseSerial start = Some sp" and ep: "parseSerial end = Some ep" by simp_all
  show "parseInt10 (numStr sp) = roundNumber (digitsValue (numStr sp))"
    by (rule parseInt10_parseSerial [OF sp])
  show "parseInt10 (numStr ep) = roundNumber (digitsValue (numStr ep))"
    by (rule parseInt10_parseSerial [OF ep])
  {
    assume "prefix sp \<noteq> prefix ep \<or> suffix sp \<noteq> suffix ep"
    from expandRange_mismatch [OF sp ep this, of maxLength]
    show "expandRange maxLength start end =
           Some (Inl ''The text parts (prefix/suffix) of the serial numbers do not match.'')"
      by (simp only: errTextParts_def)
  }
  {
    assume g: "prefix sp = prefix ep \<and> suffix sp = suffix ep \<and>
       numGt (parseInt10 (numStr sp)) (parseInt10 (numStr ep))"
    then have m: "prefix sp = prefix ep" "suffix sp = suffix ep" by simp_all
    from expandRange_reversed_iff [OF sp ep m, of maxLength] g
    have "expandRange maxLength start end = Some (Inl errStartGreater)" by simp
    then show "expandRange maxLength start end =
           Some (Inl ''The start number cannot be greater than the end number.'')"
      by (simp only: errStartGreater_def)
  }
qed

theorem expandRange_no_exactness_guard_witness:
  "parseSerial ''A18014398509481987'' =
     Some \<lparr> prefix = ''A'', numStr = ''18014398509481987'', suffix = '''' \<rparr> \<and>
   parseSerial ''A18014398509481985'' =
     Some \<lparr> prefix = ''A'', numStr = ''18014398509481985'', suffix = '''' \<rparr> \<and>
   digitsValue ''18014398509481987'' = 18014398509481987 \<and>
   digitsValue ''18014398509481985'' = 18014398509481985 \<and>
   parseInt10 ''18014398509481987'' = Finite 18014398509481988 \<and>
   parseInt10 ''18014398509481985'' = Finite 18014398509481984 \<and>
   list_ex isDigit ''A18014398509481987'' \<and> list_ex isDigit ''A18014398509481985'' \<and>
   expandRange 4294967295 ''A18014398509481987'' ''A18014398509481985'' =
     Some (Inl ''The start number cannot be greater than the end number.'') \<and>
   expandRange 4294967295 ''A18014398509481987'' ''A18014398509481985'' \<noteq>
     Some (Inl ''Invalid format. Serials must contain a number part for range expansion.'')"
proof -
  have a: "parseSerial ''A18014398509481987'' =
     Some \<lparr> prefix = ''A'', numStr = ''18014398509481987'', suffix = '''' \<rparr>"
    by (simp add: parseSerial_def isDigit_def substring_def substringFrom_def)
  have b: "parseSerial ''A18014398509481985'' =
     Some \<lparr> prefix = ''A'', numStr = ''18014398509481985'', suffix = '''' \<rparr>"
    by (simp add: parseSerial_def isDigit_def substring_def substringFrom_def)
  have v: "digitsValue ''18014398509481987'' = 18014398509481987"
      "digitsValue ''18014398509481985'' = 18014398509481985"
    by (simp_all add: digitsValue_def digitVal_def)
  have r: "roundNumber 18014398509481987 = Finite 18014398509481988"
      "roundNumber 18014398509481985 = Finite 18014398509481984"
    by (simp_all add: roundNumber_def bitLength.simps Let_def)
  have d: "list_ex isDigit ''A18014398509481987''" "list_ex isDigit ''A18014398509481985''"
    by (simp_all add: isDigit_def)
  note w = expandRange_no_exactness_guard
    [of 4294967295 "''A18014398509481987''" "''A18014398509481985''"
        "\<lparr> prefix = ''A'', numStr = ''18014398509481987'', suffix = '''' \<rparr>"
        "\<lparr> prefix = ''A'', numStr = ''18014398509481985'', suffix = '''' \<rparr>"]
  note parts = w [THEN conjunct2, THEN mp, OF conjI [OF a b]]
  from parts v r have p: "parseInt10 ''18014398509481987'' = Finite 18014398509481988"
      "parseInt10 ''18014398509481985'' = Finite 18014398509481984"
    by simp_all
  from parts p have e: "expandRange 4294967295 ''A18014398509481987'' ''A18014398509481985'' =
     Some (Inl ''The start number cannot be greater than the end number.'')"
    by simp
  then have n: "expandRange 4294967295 ''A18014398509481987'' ''A18014398509481985'' \<noteq>
     Some (Inl ''Invalid format. Serials must contain a number part for range expansion.'')"
    by simp
  from a b v p d e n show ?thesis by (intro conjI)
qed

subsection \<open>C9\<close>

text \<open>
  C9, as stated, fails: \<^verbatim>\<open>expandRange("1", "1001")\<close> returns a list of 1001 elements, more
  than the cap, in every array that can hold them.
\<close>

theorem expandRange_cap_counterexample:
  "(\<forall>k. expandRange (1001 + k) ''1'' ''1001'' =
          Some (Inr (map (\<lambda>n. padStart 4 (decimal n)) [1..<1002]))) \<and>
   length (map (\<lambda>n. padStart 4 (decimal n)) [1..<1002]) = 1001"
proof (intro conjI allI)
  fix k
  show "expandRange (1001 + k) ''1'' ''1001'' =
          Some (Inr (map (\<lambda>n. padStart 4 (decimal n)) [1..<1002]))"
    by (rule expandRange_1_1001) simp
next
  show "length (map (\<lambda>n. padStart 4 (decimal n)) [1..<1002]) = 1001" by simp
qed

text \<open>
  C9, amended: \<^verbatim>\<open>expandRange\<close> does not compute the count beforehand and has no cap of
  its own: a list it returns has all \<open>endNum - startNum + 1\<close> elements. The cap is applied
  by the callers to the list that was built, so that the serials they pass on are never
  more than 1000.
\<close>

theorem expandRange_materialises:
  "(expandRange maxLength start end = Some (Inr xs) \<longrightarrow>
      (\<exists>sp ep. parseSerial start = Some sp \<and> parseSerial end = Some ep \<and>
         length xs = digitsValue (numStr ep) - digitsValue (numStr sp) + 1)) \<and>
   (serialsProcessingResult maxLength mode item = Some r \<longrightarrow> length (serials r) \<le> 1000) \<and>
   (scannedSerialsProcessingResult maxLength itemTypes details = Some r' \<longrightarrow>
      length (serials r') \<le> 1000)"
proof (intro conjI impI)
  assume "expandRange maxLength start end = Some (Inr xs)"
  from expandRange_elements [OF this]
  show "\<exists>sp ep. parseSerial start = Some sp \<and> parseSerial end = Some ep \<and>
         length xs = digitsValue (numStr ep) - digitsValue (numStr sp) + 1"
    by blast
next
  assume "serialsProcessingResult maxLength mode item = Some r"
  then show "length (serials r) \<le> 1000" by (rule serialsProcessingResult_cap)
next
  assume "scannedSerialsProcessingResult maxLength itemTypes details = Some r'"
  then show "length (serials r') \<le> 1000" by (rule scannedSerialsProcessingResult_cap)
qed

theorem expandRange_materialises_witness:
  "expandRange 4294967295 ''1'' ''1001'' =
     Some (Inr (map (\<lambda>n. padStart 4 (decimal n)) [1..<1002])) \<and>
   parseSerial ''1'' = Some \<lparr> prefix = '''', numStr = ''1'', suffix = '''' \<rparr> \<and>
   parseSerial ''1001'' = Some \<lparr> prefix = '''', numStr = ''1001'', suffix = '''' \<rparr> \<and>
   length (map (\<lambda>n. padStart 4 (decimal n)) [1..<1002]) =
     digitsValue ''1001'' - digitsValue ''1'' + 1 \<and>
   digitsValue ''1001'' - digitsValue ''1'' + 1 = 1001 \<and>
   serialsProcessingResult 4294967295 ModeRange
       \<lparr> firstSerial = ''1'', lastSerial = ''1001'', barcodes = '''' \<rparr> =
     Some \<lparr> serials = [],
            error = Some ''Range is too large. A maximum of 1000 items can be added at once, but this range contains 1001.'' \<rparr> \<and>
   length (serials \<lparr> serials = [],
            error = Some ''Range is too large. A maximum of 1000 items can be added at once, but this range contains 1001.'' \<rparr>) \<le> 1000"
proof -
  have h: "expandRange 4294967295 ''1'' ''1001'' =
      Some (Inr (map (\<lambda>n. padStart 4 (decimal n)) [1..<1002]))"
    by (rule expandRange_1_1001) simp
  note w = expandRange_materialises
    [of 4294967295 "''1''" "''1001''" "map (\<lambda>n. padStart 4 (decimal n)) [1..<1002]"
        ModeRange "\<lparr> firstSerial = ''1'', lastSerial = ''1001'', barcodes = '''' \<rparr>"
        "\<lparr> serials = [],
           error = Some ''Range is too large. A maximum of 1000 items can be added at once, but this range contains 1001.'' \<rparr>"]
  from w [THEN conjunct1, THEN mp, OF h]
  obtain sp ep where sp: "parseSerial ''1'' = Some sp" and ep: "parseSerial ''1001'' = Some ep"
    and len: "length (map (\<lambda>n. padStart 4 (decimal n)) [1..<1002]) =
      digitsValue (numStr ep) - digitsValue (numStr sp) + 1"
    by blast
  from sp ep have "numStr sp = ''1''" and "numStr ep = ''1001''"
    by (auto simp: parseSerial_simps)
  with len have l: "length (map (\<lambda>n. padStart 4 (decimal n)) [1..<1002]) =
     digitsValue ''1001'' - digitsValue ''1'' + 1"
    by (simp only:)
  have c: "digitsValue ''1001'' - digitsValue ''1'' + 1 = 1001"
    by (simp add: digitsValue_simps)
  have "expandRange 4294967295 (trim ''1'') (trim ''1001'') =
      Some (Inr (map (\<lambda>n. padStart 4 (decimal n)) [1..<1002]))"
    by (simp only: trim_plain h)
  from serialsProcessingResult_range [OF this, of "''''"]
  have s: "serialsProcessingResult 4294967295 ModeRange
       \<lparr> firstSerial = ''1'', lastSerial = ''1001'', barcodes = '''' \<rparr> =
     Some \<lparr> serials = [],
            error = Some ''Range is too large. A maximum of 1000 items can be added at once, but this range contains 1001.'' \<rparr>"
    by (simp add: errRangeTooLarge_def decimal_simps del: upt_Suc)
  note cap = w [THEN conjunct2, THEN conjunct1, THEN mp, OF s]
  from h l c s cap show ?thesis by (simp only: parseSerial_simps simp_thms)
qed

subsection \<open>C10\<close>

text \<open>
  C10: in list mode, for a text that is not blank, the lines are the pieces between the
  line feeds, each trimmed, the empty ones dropped. The cap is checked on these lines
  first; the duplicate check follows only when the cap holds, and compares the trimmed
  lines as strings. So an entry with white space around it equals the same entry without
  (trimming removes exactly the surrounding white space), and a list of more than 1000
  lines is reported as too long whether or not it has duplicates.
\<close>

theorem list_mode_order:
  "(trim text \<noteq> [] \<longrightarrow>
      (let lines = filter (\<lambda>line. line \<noteq> []) (map trim (splitLines text))
       in serialsProcessingResult maxLength ModeList
            \<lparr> firstSerial = a, lastSerial = b, barcodes = text \<rparr> =
          Some (if 1000 < length lines
                then \<lparr> serials = [],
                       error = Some (''List is too long. A maximum of 1000 items can be added at once, but you have provided '' @
                                     decimal (length lines) @ ''.'') \<rparr>
                else if \<not> distinct lines
                     then \<lparr> serials = [],
                            error = Some ''The list contains duplicate serial numbers. Please ensure each is unique.'' \<rparr>
                     else \<lparr> serials = lines, error = None \<rparr>) \<and>
          (\<forall>line\<in>set lines.
             line \<noteq> [] \<and> \<not> isWhiteSpace (hd line) \<and> \<not> isWhiteSpace (last line)))) \<and>
   ((\<forall>c\<in>set w1. isWhiteSpace c) \<and> (\<forall>c\<in>set w2. isWhiteSpace c) \<longrightarrow>
      trim (w1 @ entry @ w2) = trim entry) \<and>
   concat (map (\<lambda>l. l @ [CHR 0x0A]) (splitLines text)) = text @ [CHR 0x0A] \<and>
   (\<forall>l\<in>set (splitLines text). CHR 0x0A \<notin> set l)"
proof (intro conjI impI)
  assume t: "trim text \<noteq> []"
  note r = serialsProcessingResult_list [OF t, of maxLength a b,
      unfolded Let_def errListTooLong_text errDuplicates_def]
  show "let lines = filter (\<lambda>line. line \<noteq> []) (map trim (splitLines text))
       in serialsProcessingResult maxLength ModeList
            \<lparr> firstSerial = a, lastSerial = b, barcodes = text \<rparr> =
          Some (if 1000 < length lines
                then \<lparr> serials = [],
                       error = Some (''List is too long. A maximum of 1000 items can be added at once, but you have provided '' @
                                     decimal (length lines) @ ''.'') \<rparr>
                else if \<not> distinct lines
                     then \<lparr> serials = [],
                            error = Some ''The list contains duplicate serial numbers. Please ensure each is unique.'' \<rparr>
                     else \<lparr> serials = lines, error = None \<rparr>) \<and>
          (\<forall>line\<in>set lines.
             line \<noteq> [] \<and> \<not> isWhiteSpace (hd line) \<and> \<not> isWhiteSpace (last line))"
    unfolding Let_def by (rule conjI [OF r trimmed_lines_ends])
next
  assume "(\<forall>c\<in>set w1. isWhiteSpace c) \<and> (\<forall>c\<in>set w2. isWhiteSpace c)"
  then show "trim (w1 @ entry @ w2) = trim entry" by (intro trim_surround) simp_all
next
  show "concat (map (\<lambda>l. l @ [CHR 0x0A]) (splitLines text)) = text @ [CHR 0x0A]"
    by (rule splitLines_joined)
next
  show "\<forall>l\<in>set (splitLines text). CHR 0x0A \<notin> set l"
    using splitLines_no_line_feed by blast
qed

theorem list_mode_order_witness:
  "trim (''A1'' @ [CHR 0x0A] @ '' A1 '') \<noteq> [] \<and>
   serialsProcessingResult 4294967295 ModeList
       \<lparr> firstSerial = [], lastSerial = [], barcodes = ''A1'' @ [CHR 0x0A] @ '' A1 '' \<rparr> =
     Some \<lparr> serials = [],
            error = Some ''The list contains duplicate serial numbers. Please ensure each is unique.'' \<rparr> \<and>
   trim (''a1'' @ [CHR 0x0A] @ ''A1'') \<noteq> [] \<and>
   serialsProcessingResult 4294967295 ModeList
       \<lparr> firstSerial = [], lastSerial = [], barcodes = ''a1'' @ [CHR 0x0A] @ ''A1'' \<rparr> =
     Some \<lparr> serials = [''a1'', ''A1''], error = None \<rparr> \<and>
   trim (concat (replicate 1001 (''A'' @ [CHR 0x0A]))) \<noteq> [] \<and>
   \<not> distinct (replicate 1001 ''A'') \<and>
   serialsProcessingResult 4294967295 ModeList
       \<lparr> firstSerial = [], lastSerial = [],
         barcodes = concat (replicate 1001 (''A'' @ [CHR 0x0A])) \<rparr> =
     Some \<lparr> serials = [],
            error = Some ''List is too long. A maximum of 1000 items can be added at once, but you have provided 1001.'' \<rparr>"
proof -
  have t1: "trim (''A1'' @ [CHR 0x0A] @ '' A1 '') \<noteq> []"
    by (simp add: trim_def isWhiteSpace_def)
  have l1: "filter (\<lambda>line. line \<noteq> []) (map trim (splitLines (''A1'' @ [CHR 0x0A] @ '' A1 ''))) =
      [''A1'', ''A1'']"
    by (simp add: trim_def isWhiteSpace_def)
  from list_mode_order [of "''A1'' @ [CHR 0x0A] @ '' A1 ''" 4294967295 "[]" "[]",
      THEN conjunct1, THEN mp, OF t1]
  have r1: "serialsProcessingResult 4294967295 ModeList
       \<lparr> firstSerial = [], lastSerial = [], barcodes = ''A1'' @ [CHR 0x0A] @ '' A1 '' \<rparr> =
     Some \<lparr> serials = [],
            error = Some ''The list contains duplicate serial numbers. Please ensure each is unique.'' \<rparr>"
    unfolding Let_def l1 by simp
  have t3: "trim (''a1'' @ [CHR 0x0A] @ ''A1'') \<noteq> []"
    by (simp add: trim_def isWhiteSpace_def)
  have l3: "filter (\<lambda>line. line \<noteq> []) (map trim (splitLines (''a1'' @ [CHR 0x0A] @ ''A1''))) =
      [''a1'', ''A1'']"
    by (simp add: trim_def isWhiteSpace_def)
  from list_mode_order [of "''a1'' @ [CHR 0x0A] @ ''A1''" 4294967295 "[]" "[]",
      THEN conjunct1, THEN mp, OF t3]
  have r3: "serialsProcessingResult 4294967295 ModeList
       \<lparr> firstSerial = [], lastSerial = [], barcodes = ''a1'' @ [CHR 0x0A] @ ''A1'' \<rparr> =
     Some \<lparr> serials = [''a1'', ''A1''], error = None \<rparr>"
    unfolding Let_def l3 by simp
  have tA: "trim ''A'' = ''A''" by (simp add: trim_def isWhiteSpace_def)
  have lf: "CHR 0x0A \<notin> set ''A''" by simp
  have ne: "''A'' \<noteq> []" by simp
  have pos: "(0::nat) < 1001" by simp
  note l2 = list_mode_repeated(1) [OF lf tA ne pos]
  note t2 = list_mode_repeated(2) [OF lf tA ne pos]
  have "(2::nat) \<le> 1001" by simp
  then have nd: "\<not> distinct (replicate 1001 ''A'')" by (rule not_distinct_replicate)
  have len: "1000 < length (replicate (1001::nat) ''A'')" by (simp only: length_replicate)
  from list_mode_order [of "concat (replicate 1001 (''A'' @ [CHR 0x0A]))" 4294967295 "[]" "[]",
      THEN conjunct1, THEN mp, OF t2]
  have "serialsProcessingResult 4294967295 ModeList
       \<lparr> firstSerial = [], lastSerial = [],
         barcodes = concat (replicate 1001 (''A'' @ [CHR 0x0A])) \<rparr> =
     Some \<lparr> serials = [],
            error = Some (''List is too long. A maximum of 1000 items can be added at once, but you have provided '' @
               decimal (length (replicate (1001::nat) ''A'')) @ ''.'') \<rparr>"
    unfolding Let_def l2 using len by (simp only: if_True)
  then have r2: "serialsProcessingResult 4294967295 ModeList
       \<lparr> firstSerial = [], lastSerial = [],
         barcodes = concat (replicate 1001 (''A'' @ [CHR 0x0A])) \<rparr> =
     Some \<lparr> serials = [],
            error = Some ''List is too long. A maximum of 1000 items can be added at once, but you have provided 1001.'' \<rparr>"
    by (simp only: length_replicate decimal_simps append.simps)
  from t1 r1 t3 r3 t2 nd r2 show ?thesis by (intro conjI)
qed

end
